theory Spec2Isabelle
  imports
    Main
    "HOL-Library.FSet"
    "HOL-Library.AList"
    "HOL-Library.Sublist"
    "HOL-Library.Char_ord"
    "HOL-Library.List_Lexorder"
begin

section \<open>Python values used by the application\<close>

text \<open>
  A Python \<open>str\<close> is modelled as a \<open>string\<close>, one \<open>char\<close> per code point, so
  \<open>len\<close> is \<open>length\<close> and the strings of the model are those over the code
  points below 256. On these the character classes are Python's: \<open>\w\<close> in a
  \<open>str\<close> pattern matches the underscore and every character for which
  \<open>str.isalnum\<close> holds, \<open>str.lower\<close> maps \<open>A-Z\<close> and the upper-case letters
  U+00C0 to U+00DE (without the multiplication sign U+00D7) 32 places up, and
  \<open>str.strip\<close> removes the characters for which \<open>str.isspace\<close> holds. Strings
  are compared as Python compares them, lexicographically by code point.
\<close>

definition is_word_char :: "char \<Rightarrow> bool" where
  "is_word_char c =
     (let n = (of_char c :: nat)
      in (48 \<le> n \<and> n \<le> 57) \<or> (65 \<le> n \<and> n \<le> 90) \<or> n = 95 \<or> (97 \<le> n \<and> n \<le> 122) \<or>
         n = 170 \<or> (178 \<le> n \<and> n \<le> 179) \<or> n = 181 \<or> (185 \<le> n \<and> n \<le> 186) \<or>
         (188 \<le> n \<and> n \<le> 190) \<or> (192 \<le> n \<and> n \<le> 214) \<or> (216 \<le> n \<and> n \<le> 246) \<or>
         (248 \<le> n \<and> n \<le> 255))"

definition lower_char :: "char \<Rightarrow> char" where
  "lower_char c =
     (let n = (of_char c :: nat)
      in if (65 \<le> n \<and> n \<le> 90) \<or> (192 \<le> n \<and> n \<le> 214) \<or> (216 \<le> n \<and> n \<le> 222)
         then char_of (n + 32) else c)"

definition lower :: "string \<Rightarrow> string" where
  "lower s = map lower_char s"

definition isspace :: "char \<Rightarrow> bool" where
  "isspace c =
     (let n = (of_char c :: nat)
      in (9 \<le> n \<and> n \<le> 13) \<or> (28 \<le> n \<and> n \<le> 32) \<or> n = 133 \<or> n = 160)"

definition strip :: "string \<Rightarrow> string" where
  "strip s = rev (dropWhile isspace (rev (dropWhile isspace s)))"

text \<open>
  \<open>re.compile(c + r"(\w+)").findall(content)\<close> for a one-character prefix \<open>c\<close>
  that is not a word character: scanning from the left, each occurrence of \<open>c\<close>
  followed by at least one word character yields the longest run of word
  characters after it, and the scan goes on behind that run.
\<close>

function findall :: "char \<Rightarrow> string \<Rightarrow> string list" where
  "findall c [] = []"
| "findall c (x # xs) =
     (if x = c \<and> takeWhile is_word_char xs \<noteq> []
      then takeWhile is_word_char xs # findall c (dropWhile is_word_char xs)
      else findall c xs)"
  by pat_completeness auto
termination
  by (relation "measure (\<lambda>(c, s). length s)")
     (auto simp: less_Suc_eq_le length_dropWhile_le)

text \<open>
  \<open>list(dict.fromkeys(xs))\<close>: the keys are inserted one after the other, a key that
  is already present keeps its place.
\<close>

definition fromkeys :: "'a list \<Rightarrow> 'a list" where
  "fromkeys xs = foldl (\<lambda>d k. if k \<in> set d then d else d @ [k]) [] xs"

text \<open>\<open>d.get(k, default)\<close> and \<open>d.setdefault(k, default)\<close> on a dictionary.\<close>

definition dict_get :: "('k \<rightharpoonup> 'v) \<Rightarrow> 'k \<Rightarrow> 'v \<Rightarrow> 'v" where
  "dict_get d k dflt = (case d k of None \<Rightarrow> dflt | Some v \<Rightarrow> v)"

definition setdefault :: "('k \<rightharpoonup> 'v) \<Rightarrow> 'k \<Rightarrow> 'v \<Rightarrow> ('k \<rightharpoonup> 'v)" where
  "setdefault d k dflt = (case d k of None \<Rightarrow> d(k \<mapsto> dflt) | Some v \<Rightarrow> d)"

text \<open>
  \<open>xs.sort(key=key, reverse=True)\<close>: Python's sort is stable, and with
  \<open>reverse=True\<close> it reverses the list, sorts it stably in ascending order and
  reverses the result, so that elements with equal keys keep their order.
\<close>

definition sort_reverse :: "('a \<Rightarrow> 'k::linorder) \<Rightarrow> 'a list \<Rightarrow> 'a list" where
  "sort_reverse key xs = rev (sort_key key (rev xs))"

section \<open>Storage (storage.py)\<close>

record user =
  u_id :: string
  u_username :: string
  u_display_name :: string
  u_bio :: "string option"
  u_created_at :: string

datatype tweet_type = Tweet | Retweet | Quote

record tweet =
  t_id :: string
  t_type :: tweet_type
  t_user_id :: string
  t_content :: "string option"
  t_created_at :: string
  t_hashtags :: "string list"
  t_mentions :: "string list"
  t_original_tweet_id :: "string option"

text \<open>
  The seven module-level stores. \<open>tweets\<close> is iterated by the read endpoints, so it
  is an association list in the insertion order of the Python dictionary
  (\<open>AList.update\<close> overwrites in place or appends, \<open>AList.delete\<close> removes);
  the other dictionaries are only looked up. Python sets are finite sets.
\<close>

record storage =
  users :: "string \<rightharpoonup> user"
  usernames :: "string \<rightharpoonup> string"
  tweets :: "(string \<times> tweet) list"
  followers :: "string \<rightharpoonup> string fset"
  following :: "string \<rightharpoonup> string fset"
  likes :: "string \<rightharpoonup> string fset"
  hashtag_index :: "string \<rightharpoonup> string list"

definition empty_storage :: storage where
  "empty_storage =
     \<lparr>users = Map.empty, usernames = Map.empty, tweets = [], followers = Map.empty,
      following = Map.empty, likes = Map.empty, hashtag_index = Map.empty\<rparr>"

section \<open>Request and response models (models.py)\<close>

datatype error =
    UserNotFound string
  | TweetNotFound string
  | UsernameTaken string
  | CannotFollowYourself
  | AlreadyFollowing string
  | NotFollowing string
  | AlreadyLiked string string
  | NotLiked string string
  | ContentTooLong
  | ValueError string
  | KeyError string

fun status_code :: "error \<Rightarrow> nat" where
  "status_code (UserNotFound _) = 404"
| "status_code (TweetNotFound _) = 404"
| "status_code (UsernameTaken _) = 409"
| "status_code CannotFollowYourself = 400"
| "status_code (AlreadyFollowing _) = 409"
| "status_code (NotFollowing _) = 404"
| "status_code (AlreadyLiked _ _) = 409"
| "status_code (NotLiked _ _) = 404"
| "status_code ContentTooLong = 400"
| "status_code (ValueError _) = 422"
| "status_code (KeyError _) = 500"

record UserCreate =
  uc_username :: string
  uc_display_name :: string
  uc_bio :: "string option"

record UserUpdate =
  uu_display_name :: "string option"
  uu_bio :: "string option"

record TweetCreate =
  tc_user_id :: string
  tc_content :: string

record RetweetCreate =
  rc_user_id :: string

record QuoteTweetCreate =
  qc_user_id :: string
  qc_content :: string

record FollowRequest =
  fr_target_user_id :: string

record LikeRequest =
  lr_user_id :: string

text \<open>The field validators of the request models.\<close>

definition username_nonempty :: "string \<Rightarrow> error + string" where
  "username_nonempty v =
     (let v = strip v in if v = [] then Inl (ValueError ''username must not be empty'') else Inr v)"

definition display_name_nonempty :: "string \<Rightarrow> error + string" where
  "display_name_nonempty v =
     (let v = strip v
      in if v = [] then Inl (ValueError ''display_name must not be empty'') else Inr v)"

definition content_max_length :: "string \<Rightarrow> error + string" where
  "content_max_length v =
     (if length v > 280 then Inl (ValueError ''content must not exceed 280 characters'')
      else Inr v)"

text \<open>
  Building a \<open>UserCreate\<close> from a request body runs both validators and stores the
  stripped values; \<open>UserUpdate\<close> declares no validator, every body is accepted as
  it is.
\<close>

definition validate_UserCreate :: "UserCreate \<Rightarrow> error + UserCreate" where
  "validate_UserCreate body =
     (case username_nonempty (uc_username body) of
        Inl e \<Rightarrow> Inl e
      | Inr u \<Rightarrow>
          (case display_name_nonempty (uc_display_name body) of
             Inl e \<Rightarrow> Inl e
           | Inr d \<Rightarrow> Inr (body\<lparr>uc_username := u, uc_display_name := d\<rparr>)))"

definition validate_UserUpdate :: "UserUpdate \<Rightarrow> error + UserUpdate" where
  "validate_UserUpdate body = Inr body"

record UserOut =
  uo_id :: string
  uo_username :: string
  uo_display_name :: string
  uo_bio :: "string option"
  uo_followers_count :: nat
  uo_following_count :: nat
  uo_tweet_count :: nat
  uo_created_at :: string

datatype TweetOut = TweetOut
  (to_id: string)
  (to_type: tweet_type)
  (to_user_id: string)
  (to_content: "string option")
  (to_created_at: string)
  (to_hashtags: "string list")
  (to_mentions: "string list")
  (to_like_count: nat)
  (to_retweet_count: nat)
  (to_quote_count: nat)
  (to_original_tweet_id: "string option")
  (to_original_tweet: "TweetOut option")
  (to_author: "UserOut option")

section \<open>Users (routers/users.py)\<close>

definition build_user_out :: "storage \<Rightarrow> user \<Rightarrow> UserOut" where
  "build_user_out s user =
     (let uid = u_id user;
          tweet_count = length (filter (\<lambda>t. t_user_id t = uid) (map snd (tweets s)))
      in \<lparr>uo_id = uid,
          uo_username = u_username user,
          uo_display_name = u_display_name user,
          uo_bio = u_bio user,
          uo_followers_count = fcard (dict_get (followers s) uid {||}),
          uo_following_count = fcard (dict_get (following s) uid {||}),
          uo_tweet_count = tweet_count,
          uo_created_at = u_created_at user\<rparr>)"

text \<open>
  The handlers that write return the response, or the error raised, together with
  the storage they leave behind. \<open>uid\<close> and \<open>now\<close> are what \<open>uuid4()\<close> and
  \<open>datetime.utcnow().isoformat()\<close> return in the call.
\<close>

definition create_user :: "storage \<Rightarrow> string \<Rightarrow> string \<Rightarrow> UserCreate \<Rightarrow> (error + UserOut) \<times> storage" where
  "create_user s uid now body =
     (let normalized = lower (uc_username body)
      in if usernames s normalized \<noteq> None then (Inl (UsernameTaken (uc_username body)), s)
         else
           let user = \<lparr>u_id = uid, u_username = uc_username body,
                       u_display_name = uc_display_name body, u_bio = uc_bio body,
                       u_created_at = now\<rparr>;
               s1 = s\<lparr>users := (users s)(uid \<mapsto> user)\<rparr>;
               s2 = s1\<lparr>usernames := (usernames s1)(normalized \<mapsto> uid)\<rparr>;
               s3 = s2\<lparr>followers := (followers s2)(uid \<mapsto> {||})\<rparr>;
               s4 = s3\<lparr>following := (following s3)(uid \<mapsto> {||})\<rparr>
           in (Inr (build_user_out s4 user), s4))"

definition get_user :: "storage \<Rightarrow> string \<Rightarrow> error + UserOut" where
  "get_user s user_id =
     (case users s user_id of
        None \<Rightarrow> Inl (UserNotFound user_id)
      | Some user \<Rightarrow> Inr (build_user_out s user))"

definition update_user :: "storage \<Rightarrow> string \<Rightarrow> UserUpdate \<Rightarrow> (error + UserOut) \<times> storage" where
  "update_user s user_id body =
     (case users s user_id of
        None \<Rightarrow> (Inl (UserNotFound user_id), s)
      | Some user \<Rightarrow>
          let user1 = (case uu_display_name body of
                         None \<Rightarrow> user
                       | Some d \<Rightarrow> user\<lparr>u_display_name := d\<rparr>);
              user2 = (case uu_bio body of
                         None \<Rightarrow> user1
                       | Some b \<Rightarrow> user1\<lparr>u_bio := Some b\<rparr>);
              s1 = s\<lparr>users := (users s)(user_id \<mapsto> user2)\<rparr>
          in (Inr (build_user_out s1 user2), s1))"

section \<open>Tweets (routers/tweets.py)\<close>

definition extract_hashtags :: "string \<Rightarrow> string list" where
  "extract_hashtags content = fromkeys (map lower (findall (CHR ''#'') content))"

definition extract_mentions :: "string \<Rightarrow> string list" where
  "extract_mentions content = fromkeys (findall (CHR ''@'') content)"

text \<open>Both index functions read and write \<open>storage.hashtag_index\<close> only.\<close>

fun index_hashtags :: "(string \<rightharpoonup> string list) \<Rightarrow> string \<Rightarrow> string list \<Rightarrow> (string \<rightharpoonup> string list)" where
  "index_hashtags idx tweet_id [] = idx"
| "index_hashtags idx tweet_id (tag # hashtags) =
     index_hashtags (idx(tag \<mapsto> dict_get idx tag [] @ [tweet_id])) tweet_id hashtags"

fun deindex_hashtags :: "(string \<rightharpoonup> string list) \<Rightarrow> string \<Rightarrow> string list \<Rightarrow> (string \<rightharpoonup> string list)" where
  "deindex_hashtags idx tweet_id [] = idx"
| "deindex_hashtags idx tweet_id (tag # hashtags) =
     deindex_hashtags
       (case idx tag of
          None \<Rightarrow> idx
        | Some lst \<Rightarrow> if tweet_id \<in> set lst then idx(tag \<mapsto> remove1 tweet_id lst) else idx)
       tweet_id hashtags"

definition count_retweets :: "storage \<Rightarrow> string \<Rightarrow> nat" where
  "count_retweets s tweet_id =
     length (filter (\<lambda>t. t_type t = Retweet \<and> t_original_tweet_id t = Some tweet_id)
               (map snd (tweets s)))"

definition count_quotes :: "storage \<Rightarrow> string \<Rightarrow> nat" where
  "count_quotes s tweet_id =
     length (filter (\<lambda>t. t_type t = Quote \<and> t_original_tweet_id t = Some tweet_id)
               (map snd (tweets s)))"

text \<open>
  \<open>_build_tweet_out(tweet, depth)\<close>. The test \<open>if orig_id and depth == 0\<close> is false
  for \<open>None\<close> and for the empty string. The recursive call is made at depth 0 only,
  with depth 1.
\<close>

function build_tweet_out :: "storage \<Rightarrow> tweet \<Rightarrow> nat \<Rightarrow> TweetOut" where
  "build_tweet_out s tweet depth =
     (let tid = t_id tweet;
          author = map_option (build_user_out s) (users s (t_user_id tweet));
          orig_id = t_original_tweet_id tweet;
          original_tweet_out =
            (case orig_id of
               None \<Rightarrow> None
             | Some oid \<Rightarrow>
                 if oid \<noteq> [] \<and> depth = 0
                 then (case map_of (tweets s) oid of
                         None \<Rightarrow> None
                       | Some orig \<Rightarrow> Some (build_tweet_out s orig 1))
                 else None)
      in TweetOut tid (t_type tweet) (t_user_id tweet) (t_content tweet) (t_created_at tweet)
           (t_hashtags tweet) (t_mentions tweet)
           (fcard (dict_get (likes s) tid {||}))
           (count_retweets s tid) (count_quotes s tid)
           orig_id original_tweet_out author)"
  by pat_completeness auto
termination
  by (relation "measure (\<lambda>(s, tweet, depth). 1 - depth)") auto

declare build_tweet_out.simps [simp del]

definition create_tweet :: "storage \<Rightarrow> string \<Rightarrow> string \<Rightarrow> TweetCreate \<Rightarrow> (error + TweetOut) \<times> storage" where
  "create_tweet s tid now body =
     (if users s (tc_user_id body) = None then (Inl (UserNotFound (tc_user_id body)), s)
      else if length (tc_content body) > 280 then (Inl ContentTooLong, s)
      else
        let hashtags = extract_hashtags (tc_content body);
            mentions = extract_mentions (tc_content body);
            tweet = \<lparr>t_id = tid, t_type = Tweet, t_user_id = tc_user_id body,
                     t_content = Some (tc_content body), t_created_at = now,
                     t_hashtags = hashtags, t_mentions = mentions,
                     t_original_tweet_id = None\<rparr>;
            s1 = s\<lparr>tweets := AList.update tid tweet (tweets s)\<rparr>;
            s2 = s1\<lparr>likes := (likes s1)(tid \<mapsto> {||})\<rparr>;
            s3 = s2\<lparr>hashtag_index := index_hashtags (hashtag_index s2) tid hashtags\<rparr>
        in (Inr (build_tweet_out s3 tweet 0), s3))"

definition get_tweet :: "storage \<Rightarrow> string \<Rightarrow> error + TweetOut" where
  "get_tweet s tweet_id =
     (case map_of (tweets s) tweet_id of
        None \<Rightarrow> Inl (TweetNotFound tweet_id)
      | Some tweet \<Rightarrow> Inr (build_tweet_out s tweet 0))"

definition delete_tweet :: "storage \<Rightarrow> string \<Rightarrow> (error + unit) \<times> storage" where
  "delete_tweet s tweet_id =
     (case map_of (tweets s) tweet_id of
        None \<Rightarrow> (Inl (TweetNotFound tweet_id), s)
      | Some tweet \<Rightarrow>
          let s1 = s\<lparr>hashtag_index := deindex_hashtags (hashtag_index s) tweet_id (t_hashtags tweet)\<rparr>;
              s2 = s1\<lparr>likes := (likes s1)(tweet_id := None)\<rparr>;
              s3 = s2\<lparr>tweets := AList.delete tweet_id (tweets s2)\<rparr>
          in (Inr (), s3))"

section \<open>Retweets and quote tweets (routers/retweets.py)\<close>

definition create_retweet :: "storage \<Rightarrow> string \<Rightarrow> string \<Rightarrow> string \<Rightarrow> RetweetCreate \<Rightarrow> (error + TweetOut) \<times> storage" where
  "create_retweet s tid now tweet_id body =
     (if map_of (tweets s) tweet_id = None then (Inl (TweetNotFound tweet_id), s)
      else if users s (rc_user_id body) = None then (Inl (UserNotFound (rc_user_id body)), s)
      else
        let retweet = \<lparr>t_id = tid, t_type = Retweet, t_user_id = rc_user_id body,
                       t_content = None, t_created_at = now, t_hashtags = [],
                       t_mentions = [], t_original_tweet_id = Some tweet_id\<rparr>;
            s1 = s\<lparr>tweets := AList.update tid retweet (tweets s)\<rparr>;
            s2 = s1\<lparr>likes := (likes s1)(tid \<mapsto> {||})\<rparr>
        in (Inr (build_tweet_out s2 retweet 0), s2))"

definition create_quote_tweet :: "storage \<Rightarrow> string \<Rightarrow> string \<Rightarrow> string \<Rightarrow> QuoteTweetCreate \<Rightarrow> (error + TweetOut) \<times> storage" where
  "create_quote_tweet s tid now tweet_id body =
     (if map_of (tweets s) tweet_id = None then (Inl (TweetNotFound tweet_id), s)
      else if users s (qc_user_id body) = None then (Inl (UserNotFound (qc_user_id body)), s)
      else if length (qc_content body) > 280 then (Inl ContentTooLong, s)
      else
        let hashtags = extract_hashtags (qc_content body);
            mentions = extract_mentions (qc_content body);
            quote_tweet = \<lparr>t_id = tid, t_type = Quote, t_user_id = qc_user_id body,
                           t_content = Some (qc_content body), t_created_at = now,
                           t_hashtags = hashtags, t_mentions = mentions,
                           t_original_tweet_id = Some tweet_id\<rparr>;
            s1 = s\<lparr>tweets := AList.update tid quote_tweet (tweets s)\<rparr>;
            s2 = s1\<lparr>likes := (likes s1)(tid \<mapsto> {||})\<rparr>;
            s3 = s2\<lparr>hashtag_index := index_hashtags (hashtag_index s2) tid hashtags\<rparr>
        in (Inr (build_tweet_out s3 quote_tweet 0), s3))"

section \<open>Follows (routers/follows.py)\<close>

definition follow_user :: "storage \<Rightarrow> string \<Rightarrow> FollowRequest \<Rightarrow> (error + unit) \<times> storage" where
  "follow_user s user_id body =
     (case users s user_id of
        None \<Rightarrow> (Inl (UserNotFound user_id), s)
      | Some _ \<Rightarrow>
          let target_id = fr_target_user_id body
          in (case users s target_id of
                None \<Rightarrow> (Inl (UserNotFound target_id), s)
              | Some _ \<Rightarrow>
                  if user_id = target_id then (Inl CannotFollowYourself, s)
                  else
                    let s1 = s\<lparr>following := setdefault (following s) user_id {||}\<rparr>;
                        s2 = s1\<lparr>followers := setdefault (followers s1) target_id {||}\<rparr>
                    in (case following s2 user_id of
                          None \<Rightarrow> (Inl (KeyError user_id), s2)
                        | Some fs \<Rightarrow>
                            if target_id |\<in>| fs then (Inl (AlreadyFollowing target_id), s2)
                            else
                              let s3 = s2\<lparr>following := (following s2)(user_id \<mapsto> finsert target_id fs)\<rparr>
                              in (case followers s3 target_id of
                                    None \<Rightarrow> (Inl (KeyError target_id), s3)
                                  | Some gs \<Rightarrow>
                                      (Inr (),
                                       s3\<lparr>followers := (followers s3)(target_id \<mapsto> finsert user_id gs)\<rparr>)))))"

definition unfollow_user :: "storage \<Rightarrow> string \<Rightarrow> string \<Rightarrow> (error + unit) \<times> storage" where
  "unfollow_user s user_id target_user_id =
     (case users s user_id of
        None \<Rightarrow> (Inl (UserNotFound user_id), s)
      | Some _ \<Rightarrow>
          (case users s target_user_id of
             None \<Rightarrow> (Inl (UserNotFound target_user_id), s)
           | Some _ \<Rightarrow>
               if target_user_id |\<notin>| dict_get (following s) user_id {||}
               then (Inl (NotFollowing target_user_id), s)
               else
                 (case following s user_id of
                    None \<Rightarrow> (Inl (KeyError user_id), s)
                  | Some fs \<Rightarrow>
                      let s1 = s\<lparr>following := (following s)(user_id \<mapsto> fs |-| {|target_user_id|})\<rparr>
                      in (case followers s1 target_user_id of
                            None \<Rightarrow> (Inl (KeyError target_user_id), s1)
                          | Some gs \<Rightarrow>
                              (Inr (),
                               s1\<lparr>followers := (followers s1)(target_user_id \<mapsto> gs |-| {|user_id|})\<rparr>)))))"

section \<open>Likes (routers/likes.py)\<close>

text \<open>Both handlers answer with the like count, \<open>len(likers)\<close>.\<close>

definition like_tweet :: "storage \<Rightarrow> string \<Rightarrow> LikeRequest \<Rightarrow> (error + nat) \<times> storage" where
  "like_tweet s tweet_id body =
     (case map_of (tweets s) tweet_id of
        None \<Rightarrow> (Inl (TweetNotFound tweet_id), s)
      | Some _ \<Rightarrow>
          let s1 = s\<lparr>likes := setdefault (likes s) tweet_id {||}\<rparr>;
              likers = dict_get (likes s) tweet_id {||}
          in if lr_user_id body |\<in>| likers
             then (Inl (AlreadyLiked (lr_user_id body) tweet_id), s1)
             else
               let likers1 = finsert (lr_user_id body) likers
               in (Inr (fcard likers1), s1\<lparr>likes := (likes s1)(tweet_id \<mapsto> likers1)\<rparr>))"

definition unlike_tweet :: "storage \<Rightarrow> string \<Rightarrow> string \<Rightarrow> (error + nat) \<times> storage" where
  "unlike_tweet s tweet_id user_id =
     (case map_of (tweets s) tweet_id of
        None \<Rightarrow> (Inl (TweetNotFound tweet_id), s)
      | Some _ \<Rightarrow>
          let likers = dict_get (likes s) tweet_id {||}
          in if user_id |\<notin>| likers then (Inl (NotLiked user_id tweet_id), s)
             else
               let likers1 = likers |-| {|user_id|}
               in (Inr (fcard likers1), s\<lparr>likes := (likes s)(tweet_id \<mapsto> likers1)\<rparr>))"

section \<open>Read endpoints that list tweets newest first\<close>

definition get_user_tweets :: "storage \<Rightarrow> string \<Rightarrow> error + TweetOut list" where
  "get_user_tweets s user_id =
     (case users s user_id of
        None \<Rightarrow> Inl (UserNotFound user_id)
      | Some _ \<Rightarrow>
          let user_tweets = filter (\<lambda>t. t_user_id t = user_id) (map snd (tweets s))
          in Inr (map (\<lambda>t. build_tweet_out s t 0) (sort_reverse t_created_at user_tweets)))"

definition get_timeline :: "storage \<Rightarrow> string \<Rightarrow> error + TweetOut list" where
  "get_timeline s user_id =
     (if users s user_id = None then Inl (UserNotFound user_id)
      else
        let followed_ids = dict_get (following s) user_id {||}
        in if followed_ids = {||} then Inr []
           else
             let feed_tweets = filter (\<lambda>t. t_user_id t |\<in>| followed_ids) (map snd (tweets s))
             in Inr (map (\<lambda>t. build_tweet_out s t 0) (sort_reverse t_created_at feed_tweets)))"

definition get_tweets_by_hashtag :: "storage \<Rightarrow> string \<Rightarrow> TweetOut list" where
  "get_tweets_by_hashtag s tag =
     (let tag_lower = lower tag;
          tweet_ids = dict_get (hashtag_index s) tag_lower [];
          result = List.map_filter (map_of (tweets s)) tweet_ids
      in map (\<lambda>t. build_tweet_out s t 0) (sort_reverse t_created_at result))"

definition get_mentions :: "storage \<Rightarrow> string \<Rightarrow> error + TweetOut list" where
  "get_mentions s user_id =
     (case users s user_id of
        None \<Rightarrow> Inl (UserNotFound user_id)
      | Some user \<Rightarrow>
          let username_lower = lower (u_username user);
              mentioned_tweets =
                filter (\<lambda>t. list_ex (\<lambda>m. lower m = username_lower) (t_mentions t))
                  (map snd (tweets s))
          in Inr (map (\<lambda>t. build_tweet_out s t 0) (sort_reverse t_created_at mentioned_tweets)))"

section \<open>The application as a state machine (main.py)\<close>

text \<open>
  One request to a writing endpoint. The first arguments of the four creating
  requests are the identifier and the timestamp generated in the handler.
\<close>

datatype request =
    CreateUser string string UserCreate
  | UpdateUser string UserUpdate
  | CreateTweet string string TweetCreate
  | DeleteTweet string
  | CreateRetweet string string string RetweetCreate
  | CreateQuoteTweet string string string QuoteTweetCreate
  | FollowUser string FollowRequest
  | UnfollowUser string string
  | LikeTweet string LikeRequest
  | UnlikeTweet string string

datatype response =
    UserResponse UserOut
  | TweetResponse TweetOut
  | DetailResponse
  | LikeResponse nat
  | NoContent

definition respond :: "('a \<Rightarrow> response) \<Rightarrow> (error + 'a) \<times> storage \<Rightarrow> (error + response) \<times> storage" where
  "respond f r = (map_sum id f (fst r), snd r)"

fun perform :: "storage \<Rightarrow> request \<Rightarrow> (error + response) \<times> storage" where
  "perform s (CreateUser uid now body) = respond UserResponse (create_user s uid now body)"
| "perform s (UpdateUser user_id body) = respond UserResponse (update_user s user_id body)"
| "perform s (CreateTweet tid now body) = respond TweetResponse (create_tweet s tid now body)"
| "perform s (DeleteTweet tweet_id) = respond (\<lambda>_. NoContent) (delete_tweet s tweet_id)"
| "perform s (CreateRetweet tid now tweet_id body) =
     respond TweetResponse (create_retweet s tid now tweet_id body)"
| "perform s (CreateQuoteTweet tid now tweet_id body) =
     respond TweetResponse (create_quote_tweet s tid now tweet_id body)"
| "perform s (FollowUser user_id body) = respond (\<lambda>_. DetailResponse) (follow_user s user_id body)"
| "perform s (UnfollowUser user_id target_user_id) =
     respond (\<lambda>_. DetailResponse) (unfollow_user s user_id target_user_id)"
| "perform s (LikeTweet tweet_id body) = respond LikeResponse (like_tweet s tweet_id body)"
| "perform s (UnlikeTweet tweet_id user_id) = respond LikeResponse (unlike_tweet s tweet_id user_id)"

text \<open>
  \<open>uuid4()\<close> returns an identifier that is not in use: a new user id is no key of
  \<open>users\<close>, a new tweet id no key of \<open>tweets\<close>.
\<close>

fun fresh :: "storage \<Rightarrow> request \<Rightarrow> bool" where
  "fresh s (CreateUser uid now body) = (users s uid = None)"
| "fresh s (CreateTweet tid now body) = (map_of (tweets s) tid = None)"
| "fresh s (CreateRetweet tid now tweet_id body) = (map_of (tweets s) tid = None)"
| "fresh s (CreateQuoteTweet tid now tweet_id body) = (map_of (tweets s) tid = None)"
| "fresh s _ = True"

text \<open>The states the application can be in: those reached from the empty storage.\<close>

inductive reachable :: "storage \<Rightarrow> bool" where
  reachable_empty: "reachable empty_storage"
| reachable_perform: "reachable s \<Longrightarrow> fresh s r \<Longrightarrow> reachable (snd (perform s r))"

fun run :: "storage \<Rightarrow> request list \<Rightarrow> storage" where
  "run s [] = s"
| "run s (r # rs) = run (snd (perform s r)) rs"

fun fresh_run :: "storage \<Rightarrow> request list \<Rightarrow> bool" where
  "fresh_run s [] = True"
| "fresh_run s (r # rs) = (fresh s r \<and> fresh_run (snd (perform s r)) rs)"

section \<open>Notions used in the statements\<close>

subsection \<open>The follow graph\<close>

text \<open>
  The two views of the follow graph as the handlers read them,
  \<open>storage.following.get(a, set())\<close> and \<open>storage.followers.get(b, set())\<close>.
\<close>

definition following_of :: "storage \<Rightarrow> string \<Rightarrow> string fset" where
  "following_of s a = dict_get (following s) a {||}"

definition followers_of :: "storage \<Rightarrow> string \<Rightarrow> string fset" where
  "followers_of s b = dict_get (followers s) b {||}"

text \<open>The requests that \<open>follow_user\<close> and \<open>unfollow_user\<close> accept.\<close>

definition follow_ok :: "storage \<Rightarrow> string \<Rightarrow> string \<Rightarrow> bool" where
  "follow_ok s u t \<longleftrightarrow>
     users s u \<noteq> None \<and> users s t \<noteq> None \<and> u \<noteq> t \<and> t |\<notin>| following_of s u"

definition unfollow_ok :: "storage \<Rightarrow> string \<Rightarrow> string \<Rightarrow> bool" where
  "unfollow_ok s u t \<longleftrightarrow>
     users s u \<noteq> None \<and> users s t \<noteq> None \<and> t |\<in>| following_of s u"

text \<open>
  The follow graph is well formed: the two views mirror each other, every edge joins
  registered users, and every registered user has an entry in both dictionaries.
\<close>

definition graph_inv :: "storage \<Rightarrow> bool" where
  "graph_inv s \<longleftrightarrow>
     (\<forall>a b. b |\<in>| following_of s a \<longleftrightarrow> a |\<in>| followers_of s b) \<and>
     (\<forall>a b. b |\<in>| following_of s a \<longrightarrow> users s a \<noteq> None \<and> users s b \<noteq> None) \<and>
     (\<forall>u. users s u \<noteq> None \<longrightarrow> followers s u \<noteq> None \<and> following s u \<noteq> None)"

subsection \<open>Tweets and the hashtag index\<close>

text \<open>A view is capped when the original it embeds, if any, embeds nothing.\<close>

definition capped :: "TweetOut \<Rightarrow> bool" where
  "capped w = (case to_original_tweet w of None \<Rightarrow> True | Some v \<Rightarrow> to_original_tweet v = None)"

text \<open>
  The hashtag index is well formed: the keys of \<open>tweets\<close> are distinct, the list
  of every tag is a subsequence of those keys (so it is in insertion order and
  without repetition), and every id in the list of a tag is the id of a stored
  tweet that records the tag.
\<close>

definition index_inv :: "storage \<Rightarrow> bool" where
  "index_inv s \<longleftrightarrow>
     distinct (map fst (tweets s)) \<and>
     (\<forall>tag ids. hashtag_index s tag = Some ids \<longrightarrow> subseq ids (map fst (tweets s))) \<and>
     (\<forall>tag ids tid. hashtag_index s tag = Some ids \<longrightarrow> tid \<in> set ids \<longrightarrow>
        (\<exists>t. map_of (tweets s) tid = Some t \<and> tag \<in> set (t_hashtags t)))"

text \<open>Every stored tweet carries its key as its id.\<close>

definition key_inv :: "storage \<Rightarrow> bool" where
  "key_inv s \<longleftrightarrow> list_all (\<lambda>kt. t_id (snd kt) = fst kt) (tweets s)"

subsection \<open>The order of the listings\<close>

text \<open>
  The insertion sequence number of a tweet: the position of its id among the keys
  of \<open>tweets\<close>, which the dictionary keeps in insertion order.
\<close>

fun insertion_index :: "'a \<Rightarrow> 'a list \<Rightarrow> nat" where
  "insertion_index k [] = 0"
| "insertion_index k (x # xs) = (if x = k then 0 else Suc (insertion_index k xs))"

text \<open>The same comparison on stored tweets.\<close>

definition by_insertion :: "storage \<Rightarrow> tweet \<Rightarrow> tweet \<Rightarrow> bool" where
  "by_insertion s a b \<longleftrightarrow>
     insertion_index (t_id a) (map fst (tweets s)) < insertion_index (t_id b) (map fst (tweets s))"

text \<open>
  The order in which the handlers list tweets: a later timestamp first, and among
  equal timestamps the tweet that stands first in the store, which is the one
  inserted earlier.
\<close>

definition listing_order :: "storage \<Rightarrow> TweetOut \<Rightarrow> TweetOut \<Rightarrow> bool" where
  "listing_order s v w \<longleftrightarrow>
     to_created_at w < to_created_at v \<or>
     (to_created_at v = to_created_at w \<and>
      insertion_index (to_id v) (map fst (tweets s)) <
      insertion_index (to_id w) (map fst (tweets s)))"

subsection \<open>Example requests and request sequences\<close>

definition alice :: UserCreate where
  "alice = \<lparr>uc_username = ''alice'', uc_display_name = ''Alice'', uc_bio = None\<rparr>"

definition bob :: UserCreate where
  "bob = \<lparr>uc_username = ''bob'', uc_display_name = ''Bob'', uc_bio = None\<rparr>"

definition follow_demo :: "request list" where
  "follow_demo =
     [CreateUser ''u1'' ''t0'' alice, CreateUser ''u2'' ''t0'' bob,
      FollowUser ''u1'' \<lparr>fr_target_user_id = ''u2''\<rparr>,
      FollowUser ''u1'' \<lparr>fr_target_user_id = ''u2''\<rparr>,
      FollowUser ''u2'' \<lparr>fr_target_user_id = ''u1''\<rparr>,
      UnfollowUser ''u2'' ''u1'',
      UnfollowUser ''u2'' ''u1'']"

definition one_tweet_demo :: "request list" where
  "one_tweet_demo =
     [CreateUser ''u1'' ''t0'' alice,
      CreateTweet ''p1'' ''t1'' \<lparr>tc_user_id = ''u1'', tc_content = ''hello''\<rparr>]"

definition chain_demo :: "request list" where
  "chain_demo =
     [CreateUser ''u1'' ''t0'' alice,
      CreateTweet ''p1'' ''t1'' \<lparr>tc_user_id = ''u1'', tc_content = ''hello''\<rparr>,
      CreateRetweet ''p2'' ''t2'' ''p1'' \<lparr>rc_user_id = ''u1''\<rparr>,
      CreateQuoteTweet ''p3'' ''t3'' ''p2'' \<lparr>qc_user_id = ''u1'', qc_content = ''look''\<rparr>]"

definition dangling_demo :: "request list" where
  "dangling_demo =
     [CreateUser ''u1'' ''t0'' alice,
      CreateTweet ''p1'' ''t1'' \<lparr>tc_user_id = ''u1'', tc_content = ''hello''\<rparr>,
      CreateRetweet ''p2'' ''t2'' ''p1'' \<lparr>rc_user_id = ''u1''\<rparr>,
      DeleteTweet ''p1'']"

definition tags_demo :: "request list" where
  "tags_demo =
     [CreateUser ''u1'' ''t0'' alice,
      CreateTweet ''p1'' ''t1'' \<lparr>tc_user_id = ''u1'', tc_content = ''#x #y #x''\<rparr>,
      CreateTweet ''p2'' ''t2'' \<lparr>tc_user_id = ''u1'', tc_content = ''#x''\<rparr>,
      CreateQuoteTweet ''p3'' ''t3'' ''p1'' \<lparr>qc_user_id = ''u1'', qc_content = ''#y #x''\<rparr>,
      LikeTweet ''p3'' \<lparr>lr_user_id = ''u1''\<rparr>,
      DeleteTweet ''p2'']"

definition tie_demo :: "request list" where
  "tie_demo =
     [CreateUser ''u1'' ''t0'' alice,
      CreateUser ''u2'' ''t0'' bob,
      FollowUser ''u2'' \<lparr>fr_target_user_id = ''u1''\<rparr>,
      CreateTweet ''p1'' ''t5'' \<lparr>tc_user_id = ''u1'', tc_content = ''one #x @bob''\<rparr>,
      CreateTweet ''p2'' ''t5'' \<lparr>tc_user_id = ''u1'', tc_content = ''two #x @bob''\<rparr>,
      CreateTweet ''p3'' ''t7'' \<lparr>tc_user_id = ''u1'', tc_content = ''three #x @bob''\<rparr>]"

text \<open>A storage that no sequence of requests produces: an edge without its mirror entry.\<close>

definition skewed_storage :: storage where
  "skewed_storage =
     empty_storage
       \<lparr>users := [''u1'' \<mapsto> \<lparr>u_id = ''u1'', u_username = ''alice'', u_display_name = ''Alice'',
                             u_bio = None, u_created_at = ''t0''\<rparr>,
                  ''u2'' \<mapsto> \<lparr>u_id = ''u2'', u_username = ''bob'', u_display_name = ''Bob'',
                             u_bio = None, u_created_at = ''t0''\<rparr>],
        following := [''u1'' \<mapsto> {|''u2''|}]\<rparr>"

section \<open>The follow graph is symmetric\<close>

lemma follow_user_users [simp]: "users (snd (follow_user s u body)) = users s"
  by (simp add: follow_user_def Let_def split: option.splits)

lemma follow_user_following_of:
  "following_of (snd (follow_user s u body)) a =
     (if follow_ok s u (fr_target_user_id body) \<and> a = u
      then finsert (fr_target_user_id body) (following_of s a) else following_of s a)"
  by (simp add: follow_user_def follow_ok_def following_of_def Let_def setdefault_def dict_get_def
        split: option.splits)

lemma follow_user_followers_of:
  "followers_of (snd (follow_user s u body)) b =
     (if follow_ok s u (fr_target_user_id body) \<and> b = fr_target_user_id body
      then finsert u (followers_of s b) else followers_of s b)"
  by (simp add: follow_user_def follow_ok_def following_of_def followers_of_def Let_def
        setdefault_def dict_get_def split: option.splits)

lemma follow_user_entries:
  "followers s x \<noteq> None \<Longrightarrow> followers (snd (follow_user s u body)) x \<noteq> None"
  "following s x \<noteq> None \<Longrightarrow> following (snd (follow_user s u body)) x \<noteq> None"
  by (simp_all add: follow_user_def Let_def setdefault_def split: option.splits)

lemma unfollow_user_users [simp]: "users (snd (unfollow_user s u t)) = users s"
  by (simp add: unfollow_user_def Let_def split: option.splits)

lemma unfollow_user_following_of:
  "following_of (snd (unfollow_user s u t)) a =
     (if unfollow_ok s u t \<and> a = u then following_of s a |-| {|t|} else following_of s a)"
  by (simp add: unfollow_user_def unfollow_ok_def following_of_def Let_def dict_get_def
        split: option.splits)

lemma unfollow_user_followers_of:
  "followers_of (snd (unfollow_user s u t)) b =
     (if unfollow_ok s u t \<and> b = t then followers_of s b |-| {|u|} else followers_of s b)"
  by (simp add: unfollow_user_def unfollow_ok_def following_of_def followers_of_def Let_def
        dict_get_def split: option.splits)

lemma unfollow_user_entries:
  "followers s x \<noteq> None \<Longrightarrow> followers (snd (unfollow_user s u t)) x \<noteq> None"
  "following s x \<noteq> None \<Longrightarrow> following (snd (unfollow_user s u t)) x \<noteq> None"
  by (simp_all add: unfollow_user_def Let_def split: option.splits)

lemma create_user_users:
  "users (snd (create_user s uid now body)) x \<noteq> None \<Longrightarrow> x = uid \<or> users s x \<noteq> None"
  "users s x \<noteq> None \<Longrightarrow> users (snd (create_user s uid now body)) x \<noteq> None"
  by (simp_all add: create_user_def Let_def split: if_splits)

lemma create_user_following_of:
  "following_of s uid = {||} \<Longrightarrow> following_of (snd (create_user s uid now body)) a = following_of s a"
  by (simp add: create_user_def following_of_def Let_def dict_get_def)

lemma create_user_followers_of:
  "followers_of s uid = {||} \<Longrightarrow> followers_of (snd (create_user s uid now body)) a = followers_of s a"
  by (simp add: create_user_def followers_of_def Let_def dict_get_def)

lemma create_user_entries:
  "users (snd (create_user s uid now body)) x \<noteq> None \<Longrightarrow> users s x = None \<Longrightarrow>
     followers (snd (create_user s uid now body)) x \<noteq> None \<and>
     following (snd (create_user s uid now body)) x \<noteq> None"
  "followers s x \<noteq> None \<Longrightarrow> followers (snd (create_user s uid now body)) x \<noteq> None"
  "following s x \<noteq> None \<Longrightarrow> following (snd (create_user s uid now body)) x \<noteq> None"
  by (simp_all add: create_user_def Let_def split: if_splits)

lemma update_user_graph:
  "(users (snd (update_user s user_id body)) x \<noteq> None) = (users s x \<noteq> None)"
  "followers (snd (update_user s user_id body)) = followers s"
  "following (snd (update_user s user_id body)) = following s"
  by (simp_all add: update_user_def Let_def split: option.splits)

lemma create_tweet_graph:
  "users (snd (create_tweet s tid now body)) = users s"
  "followers (snd (create_tweet s tid now body)) = followers s"
  "following (snd (create_tweet s tid now body)) = following s"
  by (simp_all add: create_tweet_def Let_def)

lemma delete_tweet_graph:
  "users (snd (delete_tweet s tweet_id)) = users s"
  "followers (snd (delete_tweet s tweet_id)) = followers s"
  "following (snd (delete_tweet s tweet_id)) = following s"
  by (simp_all add: delete_tweet_def Let_def split: option.splits)

lemma create_retweet_graph:
  "users (snd (create_retweet s tid now tweet_id body)) = users s"
  "followers (snd (create_retweet s tid now tweet_id body)) = followers s"
  "following (snd (create_retweet s tid now tweet_id body)) = following s"
  by (simp_all add: create_retweet_def Let_def)

lemma create_quote_tweet_graph:
  "users (snd (create_quote_tweet s tid now tweet_id qbody)) = users s"
  "followers (snd (create_quote_tweet s tid now tweet_id qbody)) = followers s"
  "following (snd (create_quote_tweet s tid now tweet_id qbody)) = following s"
  by (simp_all add: create_quote_tweet_def Let_def)

lemma like_tweet_graph:
  "users (snd (like_tweet s tweet_id body)) = users s"
  "followers (snd (like_tweet s tweet_id body)) = followers s"
  "following (snd (like_tweet s tweet_id body)) = following s"
  by (simp_all add: like_tweet_def Let_def split: option.splits)

lemma unlike_tweet_graph:
  "users (snd (unlike_tweet s tweet_id user_id)) = users s"
  "followers (snd (unlike_tweet s tweet_id user_id)) = followers s"
  "following (snd (unlike_tweet s tweet_id user_id)) = following s"
  by (simp_all add: unlike_tweet_def Let_def split: option.splits)

lemma snd_respond [simp]: "snd (respond f r) = snd r"
  by (simp add: respond_def)

lemma graph_inv_frame:
  assumes "graph_inv s"
    and "\<And>x. (users s' x \<noteq> None) = (users s x \<noteq> None)"
    and "followers s' = followers s" and "following s' = following s"
  shows "graph_inv s'"
  using assms unfolding graph_inv_def following_of_def followers_of_def by simp

lemma graph_inv_empty: "graph_inv empty_storage"
  by (simp add: graph_inv_def empty_storage_def following_of_def followers_of_def dict_get_def)

lemma graph_invI:
  assumes "\<And>a b. (b |\<in>| following_of s a) = (a |\<in>| followers_of s b)"
    and "\<And>a b. b |\<in>| following_of s a \<Longrightarrow> users s a \<noteq> None"
    and "\<And>a b. b |\<in>| following_of s a \<Longrightarrow> users s b \<noteq> None"
    and "\<And>x. users s x \<noteq> None \<Longrightarrow> followers s x \<noteq> None"
    and "\<And>x. users s x \<noteq> None \<Longrightarrow> following s x \<noteq> None"
  shows "graph_inv s"
  unfolding graph_inv_def using assms by blast

lemma graph_invD:
  assumes "graph_inv s"
  shows "(b |\<in>| following_of s a) = (a |\<in>| followers_of s b)"
    and "b |\<in>| following_of s a \<Longrightarrow> users s a \<noteq> None"
    and "b |\<in>| following_of s a \<Longrightarrow> users s b \<noteq> None"
    and "users s x \<noteq> None \<Longrightarrow> followers s x \<noteq> None"
    and "users s x \<noteq> None \<Longrightarrow> following s x \<noteq> None"
  using assms unfolding graph_inv_def by blast+

lemma graph_inv_follow_user:
  assumes "graph_inv s"
  shows "graph_inv (snd (follow_user s u body))"
proof (rule graph_invI)
  fix a b
  show "(b |\<in>| following_of (snd (follow_user s u body)) a) =
        (a |\<in>| followers_of (snd (follow_user s u body)) b)"
    using graph_invD(1) [OF assms]
    by (auto simp: follow_user_following_of follow_user_followers_of)
next
  fix a b assume "b |\<in>| following_of (snd (follow_user s u body)) a"
  then show "users (snd (follow_user s u body)) a \<noteq> None"
    using graph_invD(2) [OF assms]
    by (auto simp: follow_user_following_of follow_ok_def split: if_splits)
next
  fix a b assume "b |\<in>| following_of (snd (follow_user s u body)) a"
  then show "users (snd (follow_user s u body)) b \<noteq> None"
    using graph_invD(3) [OF assms]
    by (auto simp: follow_user_following_of follow_ok_def split: if_splits)
next
  fix x assume "users (snd (follow_user s u body)) x \<noteq> None"
  then show "followers (snd (follow_user s u body)) x \<noteq> None"
    using graph_invD(4) [OF assms] follow_user_entries(1) by simp
next
  fix x assume "users (snd (follow_user s u body)) x \<noteq> None"
  then show "following (snd (follow_user s u body)) x \<noteq> None"
    using graph_invD(5) [OF assms] follow_user_entries(2) by simp
qed

lemma graph_inv_unfollow_user:
  assumes "graph_inv s"
  shows "graph_inv (snd (unfollow_user s u t))"
proof (rule graph_invI)
  fix a b
  show "(b |\<in>| following_of (snd (unfollow_user s u t)) a) =
        (a |\<in>| followers_of (snd (unfollow_user s u t)) b)"
    using graph_invD(1) [OF assms]
    by (auto simp: unfollow_user_following_of unfollow_user_followers_of unfollow_ok_def)
next
  fix a b assume "b |\<in>| following_of (snd (unfollow_user s u t)) a"
  then show "users (snd (unfollow_user s u t)) a \<noteq> None"
    using graph_invD(2) [OF assms]
    by (auto simp: unfollow_user_following_of split: if_splits)
next
  fix a b assume "b |\<in>| following_of (snd (unfollow_user s u t)) a"
  then show "users (snd (unfollow_user s u t)) b \<noteq> None"
    using graph_invD(3) [OF assms]
    by (auto simp: unfollow_user_following_of split: if_splits)
next
  fix x assume "users (snd (unfollow_user s u t)) x \<noteq> None"
  then show "followers (snd (unfollow_user s u t)) x \<noteq> None"
    using graph_invD(4) [OF assms] unfollow_user_entries(1) by simp
next
  fix x assume "users (snd (unfollow_user s u t)) x \<noteq> None"
  then show "following (snd (unfollow_user s u t)) x \<noteq> None"
    using graph_invD(5) [OF assms] unfollow_user_entries(2) by simp
qed

lemma graph_inv_create_user:
  assumes "graph_inv s" and "users s uid = None"
  shows "graph_inv (snd (create_user s uid now body))"
proof -
  let ?s' = "snd (create_user s uid now body)"
  have e1: "following_of s uid = {||}"
    using graph_invD(2) [OF assms(1), of _ uid] assms(2) by (metis fempty_iff fset_eqI)
  have e2: "followers_of s uid = {||}"
    using graph_invD(1,3) [OF assms(1)] assms(2) by (metis fempty_iff fset_eqI)
  have f1: "\<And>a. following_of ?s' a = following_of s a"
    by (rule create_user_following_of [OF e1])
  have f2: "\<And>a. followers_of ?s' a = followers_of s a"
    by (rule create_user_followers_of [OF e2])
  show ?thesis
  proof (rule graph_invI)
    fix a b show "(b |\<in>| following_of ?s' a) = (a |\<in>| followers_of ?s' b)"
      unfolding f1 f2 by (rule graph_invD(1) [OF assms(1)])
  next
    fix a b assume "b |\<in>| following_of ?s' a"
    then have "users s a \<noteq> None"
      unfolding f1 by (rule graph_invD(2) [OF assms(1)])
    then show "users ?s' a \<noteq> None" by (rule create_user_users(2))
  next
    fix a b assume "b |\<in>| following_of ?s' a"
    then have "users s b \<noteq> None"
      unfolding f1 by (rule graph_invD(3) [OF assms(1)])
    then show "users ?s' b \<noteq> None" by (rule create_user_users(2))
  next
    fix x assume x: "users ?s' x \<noteq> None"
    show "followers ?s' x \<noteq> None"
    proof (cases "users s x = None")
      case True
      then show ?thesis using create_user_entries(1) [OF x] by blast
    next
      case False
      then have "followers s x \<noteq> None" by (rule graph_invD(4) [OF assms(1)])
      then show ?thesis by (rule create_user_entries(2))
    qed
  next
    fix x assume x: "users ?s' x \<noteq> None"
    show "following ?s' x \<noteq> None"
    proof (cases "users s x = None")
      case True
      then show ?thesis using create_user_entries(1) [OF x] by blast
    next
      case False
      then have "following s x \<noteq> None" by (rule graph_invD(5) [OF assms(1)])
      then show ?thesis by (rule create_user_entries(3))
    qed
  qed
qed

lemma graph_inv_perform:
  assumes "graph_inv s" and "fresh s r"
  shows "graph_inv (snd (perform s r))"
proof (cases r)
  case (CreateUser uid now body)
  then show ?thesis using assms by (simp add: graph_inv_create_user)
next
  case (UpdateUser user_id body)
  then show ?thesis
    using assms(1) by (simp add: graph_inv_frame [OF _ update_user_graph])
next
  case (CreateTweet tid now body)
  then show ?thesis
    using assms(1) by (simp add: graph_inv_frame [where s = s] create_tweet_graph)
next
  case (DeleteTweet tweet_id)
  then show ?thesis
    using assms(1) by (simp add: graph_inv_frame [where s = s] delete_tweet_graph)
next
  case (CreateRetweet tid now tweet_id body)
  then show ?thesis
    using assms(1) by (simp add: graph_inv_frame [where s = s] create_retweet_graph)
next
  case (CreateQuoteTweet tid now tweet_id body)
  then show ?thesis
    using assms(1) by (simp add: graph_inv_frame [where s = s] create_quote_tweet_graph)
next
  case (FollowUser user_id body)
  then show ?thesis using assms(1) by (simp add: graph_inv_follow_user)
next
  case (UnfollowUser user_id target_user_id)
  then show ?thesis using assms(1) by (simp add: graph_inv_unfollow_user)
next
  case (LikeTweet tweet_id body)
  then show ?thesis
    using assms(1) by (simp add: graph_inv_frame [where s = s] like_tweet_graph)
next
  case (UnlikeTweet tweet_id user_id)
  then show ?thesis
    using assms(1) by (simp add: graph_inv_frame [where s = s] unlike_tweet_graph)
qed

lemma reachable_graph_inv: "reachable s \<Longrightarrow> graph_inv s"
  by (induction rule: reachable.induct) (simp_all add: graph_inv_empty graph_inv_perform)

subsection \<open>A run with fresh identifiers ends in a reachable state\<close>

lemma reachable_run: "reachable s \<Longrightarrow> fresh_run s rs \<Longrightarrow> reachable (run s rs)"
  by (induction rs arbitrary: s) (simp_all add: reachable_perform)

text \<open>
  C1. In every state reachable from the empty storage by any sequence of requests
  (user creation, follow and unfollow among them, whether they succeed or are
  rejected), \<open>b\<close> is in \<open>following(a)\<close> exactly when \<open>a\<close> is in \<open>followers(b)\<close>.
\<close>

theorem follow_graph_symmetry:
  "reachable s \<Longrightarrow> (b |\<in>| following_of s a) = (a |\<in>| followers_of s b)"
  by (rule graph_invD(1) [OF reachable_graph_inv])

lemmas eval_defs = respond_def create_user_def follow_user_def unfollow_user_def Let_def
  empty_storage_def lower_def lower_char_def setdefault_def dict_get_def alice_def bob_def

text \<open>
  An instance: two users, a follow, the same follow again (rejected with 409), a
  follow back, an unfollow and the same unfollow again (rejected with 404).
\<close>

theorem follow_graph_symmetry_witness:
  "reachable (run empty_storage follow_demo) \<and>
   ''u2'' |\<in>| following_of (run empty_storage follow_demo) ''u1'' \<and>
   ''u1'' |\<in>| followers_of (run empty_storage follow_demo) ''u2''"
proof -
  have f: "fresh_run empty_storage follow_demo"
    by (simp add: follow_demo_def eval_defs)
  have r: "reachable (run empty_storage follow_demo)"
    by (rule reachable_run [OF reachable_empty f])
  have m: "''u2'' |\<in>| following_of (run empty_storage follow_demo) ''u1''"
    by (simp add: follow_demo_def following_of_def eval_defs)
  show ?thesis
    using r m follow_graph_symmetry [OF r, of "''u2''" "''u1''"] by simp
qed

section \<open>Tweet views\<close>

lemma build_tweet_out_sel [simp]:
  "to_id (build_tweet_out s tweet depth) = t_id tweet"
  "to_created_at (build_tweet_out s tweet depth) = t_created_at tweet"
  "to_original_tweet_id (build_tweet_out s tweet depth) = t_original_tweet_id tweet"
  "to_content (build_tweet_out s tweet depth) = t_content tweet"
  "to_like_count (build_tweet_out s tweet depth) = fcard (dict_get (likes s) (t_id tweet) {||})"
  by (simp_all add: build_tweet_out.simps [of s tweet depth] Let_def)

lemma build_tweet_out_original:
  "to_original_tweet (build_tweet_out s tweet depth) =
     (case t_original_tweet_id tweet of
        None \<Rightarrow> None
      | Some oid \<Rightarrow>
          if oid \<noteq> [] \<and> depth = 0
          then map_option (\<lambda>orig. build_tweet_out s orig 1) (map_of (tweets s) oid)
          else None)"
  by (simp add: build_tweet_out.simps [of s tweet depth] Let_def split: option.splits)

lemma capped_build_tweet_out: "capped (build_tweet_out s tweet depth)"
  by (auto simp: capped_def build_tweet_out_original split: option.splits)

lemma list_all_capped: "list_all capped (map (\<lambda>t. build_tweet_out s t 0) ts)"
  by (simp add: list_all_iff capped_build_tweet_out)

lemmas eval_tweet_defs = create_tweet_def create_retweet_def create_quote_tweet_def
  delete_tweet_def extract_hashtags_def extract_mentions_def fromkeys_def is_word_char_def

text \<open>
  C8. Every view a read endpoint builds is capped at one level: when it embeds an
  original, that original's own \<open>original_tweet\<close> is empty, however long the chain
  of references is. \<open>build_tweet_out\<close> is a total function, its recursion ends
  after one call.
\<close>

theorem nesting_cap:
  "capped (build_tweet_out s tweet depth) \<and>
   (get_tweet s tweet_id = Inr w \<longrightarrow> capped w) \<and>
   list_all capped (get_tweets_by_hashtag s tag) \<and>
   (get_timeline s user_id = Inr ws \<longrightarrow> list_all capped ws) \<and>
   (get_mentions s user_id = Inr ws \<longrightarrow> list_all capped ws) \<and>
   (get_user_tweets s user_id = Inr ws \<longrightarrow> list_all capped ws)"
proof -
  have "get_tweet s tweet_id = Inr w \<longrightarrow> capped w"
    by (auto simp: get_tweet_def capped_build_tweet_out split: option.splits)
  moreover have "list_all capped (get_tweets_by_hashtag s tag)"
    by (simp add: get_tweets_by_hashtag_def Let_def list_all_capped)
  moreover have "get_timeline s user_id = Inr ws \<longrightarrow> list_all capped ws"
    by (auto simp: get_timeline_def Let_def list_all_capped split: if_splits)
  moreover have "get_mentions s user_id = Inr ws \<longrightarrow> list_all capped ws"
    by (auto simp: get_mentions_def Let_def list_all_capped split: option.splits)
  moreover have "get_user_tweets s user_id = Inr ws \<longrightarrow> list_all capped ws"
    by (auto simp: get_user_tweets_def Let_def list_all_capped split: option.splits)
  ultimately show ?thesis
    using capped_build_tweet_out by blast
qed

lemma chain_demo_tweets:
  "tweets (run empty_storage chain_demo) =
     [(''p1'', \<lparr>t_id = ''p1'', t_type = Tweet, t_user_id = ''u1'', t_content = Some ''hello'',
               t_created_at = ''t1'', t_hashtags = [], t_mentions = [],
               t_original_tweet_id = None\<rparr>),
      (''p2'', \<lparr>t_id = ''p2'', t_type = Retweet, t_user_id = ''u1'', t_content = None,
               t_created_at = ''t2'', t_hashtags = [], t_mentions = [],
               t_original_tweet_id = Some ''p1''\<rparr>),
      (''p3'', \<lparr>t_id = ''p3'', t_type = Quote, t_user_id = ''u1'', t_content = Some ''look'',
               t_created_at = ''t3'', t_hashtags = [], t_mentions = [],
               t_original_tweet_id = Some ''p2''\<rparr>)]"
  by (simp add: chain_demo_def eval_defs eval_tweet_defs)

text \<open>
  An instance: a quote of a retweet of a tweet. The view of the quote embeds the
  retweet, whose reference to the first tweet is reported but not expanded.
\<close>

theorem nesting_cap_witness:
  "\<exists>w v. get_tweet (run empty_storage chain_demo) ''p3'' = Inr w \<and>
         to_original_tweet w = Some v \<and> to_id v = ''p2'' \<and>
         to_original_tweet_id v = Some ''p1'' \<and> to_original_tweet v = None"
proof -
  let ?s = "run empty_storage chain_demo"
  obtain w where w: "get_tweet ?s ''p3'' = Inr w"
    by (simp add: get_tweet_def chain_demo_tweets)
  obtain v where v: "to_original_tweet w = Some v" "to_id v = ''p2''"
      "to_original_tweet_id v = Some ''p1''"
    using w by (auto simp: get_tweet_def chain_demo_tweets build_tweet_out_original)
  have "capped w"
    using nesting_cap [where s = "?s" and tweet_id = "''p3''" and w = w] w by blast
  then have "to_original_tweet v = None"
    using v(1) by (simp add: capped_def)
  then show ?thesis using w v by blast
qed

text \<open>
  C7. When a stored retweet or quote \<open>r\<close> refers to an original that is no longer
  in the store, \<open>get_tweet\<close> succeeds, the view (at any depth, so in every listing
  too) has no embedded original, and it still reports the reference.
\<close>

theorem dangling_original:
  assumes "map_of (tweets s) rid = Some r"
    and "t_original_tweet_id r = Some oid"
    and "map_of (tweets s) oid = None"
  shows "get_tweet s rid = Inr (build_tweet_out s r 0) \<and>
         to_original_tweet (build_tweet_out s r depth) = None \<and>
         to_original_tweet_id (build_tweet_out s r depth) = Some oid"
  using assms by (simp add: get_tweet_def build_tweet_out_original)

lemma dangling_demo_tweets:
  "tweets (run empty_storage dangling_demo) =
     [(''p2'', \<lparr>t_id = ''p2'', t_type = Retweet, t_user_id = ''u1'', t_content = None,
               t_created_at = ''t2'', t_hashtags = [], t_mentions = [],
               t_original_tweet_id = Some ''p1''\<rparr>)]"
  by (simp add: dangling_demo_def eval_defs eval_tweet_defs)

text \<open>An instance: a tweet is retweeted and then deleted.\<close>

theorem dangling_original_witness:
  "\<exists>w. get_tweet (run empty_storage dangling_demo) ''p2'' = Inr w \<and>
       to_type w = Retweet \<and> to_original_tweet w = None \<and>
       to_original_tweet_id w = Some ''p1'' \<and>
       get_tweet (run empty_storage dangling_demo) ''p1'' = Inl (TweetNotFound ''p1'')"
proof -
  let ?s = "run empty_storage dangling_demo"
  let ?r = "\<lparr>t_id = ''p2'', t_type = Retweet, t_user_id = ''u1'', t_content = None,
             t_created_at = ''t2'', t_hashtags = [], t_mentions = [],
             t_original_tweet_id = Some ''p1''\<rparr>"
  have a: "map_of (tweets ?s) ''p2'' = Some ?r" by (simp add: dangling_demo_tweets)
  have b: "t_original_tweet_id ?r = Some ''p1''" by simp
  have c: "map_of (tweets ?s) ''p1'' = None" by (simp add: dangling_demo_tweets)
  have d: "to_type (build_tweet_out ?s ?r 0) = Retweet"
    by (simp add: build_tweet_out.simps [of ?s ?r 0] Let_def)
  have e: "get_tweet ?s ''p1'' = Inl (TweetNotFound ''p1'')"
    using c by (simp add: get_tweet_def)
  show ?thesis
    using dangling_original [OF a b c, of 0] d e by simp
qed

section \<open>Likes\<close>

lemma setdefault_upd [simp]: "(setdefault d k x)(k \<mapsto> v) = d(k \<mapsto> v)"
  by (simp add: setdefault_def split: option.splits)

lemma setdefault_present: "d k = Some v \<Longrightarrow> setdefault d k x = d"
  by (simp add: setdefault_def)

text \<open>
  C9. \<open>like_tweet\<close> never looks at \<open>storage.users\<close>: when the tweet exists and the
  identifier in the request is not among its likers, the like succeeds, the
  identifier joins the like set and the count returned is the old count plus one;
  the only errors are "tweet not found" and "already liked".
\<close>

theorem like_without_user_check:
  "(map_of (tweets s) p \<noteq> None \<and> lr_user_id body |\<notin>| dict_get (likes s) p {||} \<longrightarrow>
      like_tweet s p body =
        (Inr (fcard (dict_get (likes s) p {||}) + 1),
         s\<lparr>likes := (likes s)(p \<mapsto> finsert (lr_user_id body) (dict_get (likes s) p {||}))\<rparr>)) \<and>
   (fst (like_tweet s p body) = Inl e \<longrightarrow>
      e = TweetNotFound p \<or> e = AlreadyLiked (lr_user_id body) p)"
  by (auto simp: like_tweet_def Let_def fcard_finsert_disjoint split: option.splits if_splits)

lemma one_tweet_demo_state:
  "tweets (run empty_storage one_tweet_demo) =
     [(''p1'', \<lparr>t_id = ''p1'', t_type = Tweet, t_user_id = ''u1'', t_content = Some ''hello'',
               t_created_at = ''t1'', t_hashtags = [], t_mentions = [],
               t_original_tweet_id = None\<rparr>)]"
  "likes (run empty_storage one_tweet_demo) = [''p1'' \<mapsto> {||}]"
  "users (run empty_storage one_tweet_demo) ''ghost'' = None"
  "users (run empty_storage one_tweet_demo) ''u1'' \<noteq> None"
  by (simp_all add: one_tweet_demo_def eval_defs eval_tweet_defs)

text \<open>An instance: an identifier that belongs to no user likes the only tweet.\<close>

theorem like_without_user_check_witness:
  "users (run empty_storage one_tweet_demo) ''ghost'' = None \<and>
   fst (like_tweet (run empty_storage one_tweet_demo) ''p1'' \<lparr>lr_user_id = ''ghost''\<rparr>) = Inr 1 \<and>
   likes (snd (like_tweet (run empty_storage one_tweet_demo) ''p1'' \<lparr>lr_user_id = ''ghost''\<rparr>)) ''p1''
     = Some {|''ghost''|}"
proof -
  let ?s = "run empty_storage one_tweet_demo"
  have a: "map_of (tweets ?s) ''p1'' \<noteq> None" by (simp add: one_tweet_demo_state)
  have b: "lr_user_id \<lparr>lr_user_id = ''ghost''\<rparr> |\<notin>| dict_get (likes ?s) ''p1'' {||}"
    by (simp add: one_tweet_demo_state dict_get_def)
  show ?thesis
    using like_without_user_check [of ?s "''p1''" "\<lparr>lr_user_id = ''ghost''\<rparr>"] a b
    by (simp add: one_tweet_demo_state dict_get_def)
qed

section \<open>The length limit\<close>

text \<open>
  C6. For an existing author, \<open>create_tweet\<close> accepts a content of at most 280
  characters (280 included) and stores it, and rejects a longer one with status
  400, leaving the storage as it was; \<open>create_quote_tweet\<close> does the same once the
  quoted tweet and the author exist. The validator of the request models draws
  the same line.
\<close>

theorem body_length_boundary:
  "(users s (tc_user_id body) \<noteq> None \<longrightarrow>
      (length (tc_content body) \<le> 280 \<longrightarrow>
         (\<exists>v. fst (create_tweet s tid now body) = Inr v \<and> to_content v = Some (tc_content body)) \<and>
         map_option t_content (map_of (tweets (snd (create_tweet s tid now body))) tid)
           = Some (Some (tc_content body))) \<and>
      (280 < length (tc_content body) \<longrightarrow>
         create_tweet s tid now body = (Inl ContentTooLong, s))) \<and>
   (map_of (tweets s) tweet_id \<noteq> None \<and> users s (qc_user_id qbody) \<noteq> None \<longrightarrow>
      (length (qc_content qbody) \<le> 280 \<longrightarrow>
         (\<exists>v. fst (create_quote_tweet s tid now tweet_id qbody) = Inr v \<and>
              to_content v = Some (qc_content qbody)) \<and>
         map_option t_content (map_of (tweets (snd (create_quote_tweet s tid now tweet_id qbody))) tid)
           = Some (Some (qc_content qbody))) \<and>
      (280 < length (qc_content qbody) \<longrightarrow>
         create_quote_tweet s tid now tweet_id qbody = (Inl ContentTooLong, s))) \<and>
   status_code ContentTooLong = 400 \<and>
   (content_max_length c = Inr c) = (length c \<le> 280)"
proof -
  have a: "users s (tc_user_id body) \<noteq> None \<Longrightarrow> length (tc_content body) \<le> 280 \<Longrightarrow>
      (\<exists>v. fst (create_tweet s tid now body) = Inr v \<and> to_content v = Some (tc_content body)) \<and>
      map_option t_content (map_of (tweets (snd (create_tweet s tid now body))) tid)
        = Some (Some (tc_content body))"
    by (simp add: create_tweet_def Let_def update_conv')
  have b: "users s (tc_user_id body) \<noteq> None \<Longrightarrow> 280 < length (tc_content body) \<Longrightarrow>
      create_tweet s tid now body = (Inl ContentTooLong, s)"
    by (simp add: create_tweet_def)
  have c: "map_of (tweets s) tweet_id \<noteq> None \<Longrightarrow> users s (qc_user_id qbody) \<noteq> None \<Longrightarrow>
      length (qc_content qbody) \<le> 280 \<Longrightarrow>
      (\<exists>v. fst (create_quote_tweet s tid now tweet_id qbody) = Inr v \<and>
           to_content v = Some (qc_content qbody)) \<and>
      map_option t_content (map_of (tweets (snd (create_quote_tweet s tid now tweet_id qbody))) tid)
        = Some (Some (qc_content qbody))"
    by (simp add: create_quote_tweet_def Let_def update_conv')
  have d: "map_of (tweets s) tweet_id \<noteq> None \<Longrightarrow> users s (qc_user_id qbody) \<noteq> None \<Longrightarrow>
      280 < length (qc_content qbody) \<Longrightarrow>
      create_quote_tweet s tid now tweet_id qbody = (Inl ContentTooLong, s)"
    by (simp add: create_quote_tweet_def)
  have e: "(content_max_length c = Inr c) = (length c \<le> 280)"
    by (simp add: content_max_length_def)
  show ?thesis using a b c d e by simp
qed

text \<open>
  An instance: in a storage with one user and one tweet, a tweet and a quote of 280
  characters are accepted, of 281 characters rejected.
\<close>

theorem body_length_boundary_witness:
  "(\<exists>v. fst (create_tweet (run empty_storage one_tweet_demo) ''p9'' ''t9''
             \<lparr>tc_user_id = ''u1'', tc_content = replicate 280 (CHR ''a'')\<rparr>) = Inr v) \<and>
   create_tweet (run empty_storage one_tweet_demo) ''p9'' ''t9''
       \<lparr>tc_user_id = ''u1'', tc_content = replicate 281 (CHR ''a'')\<rparr>
     = (Inl ContentTooLong, run empty_storage one_tweet_demo) \<and>
   (\<exists>v. fst (create_quote_tweet (run empty_storage one_tweet_demo) ''p9'' ''t9'' ''p1''
             \<lparr>qc_user_id = ''u1'', qc_content = replicate 280 (CHR ''a'')\<rparr>) = Inr v) \<and>
   create_quote_tweet (run empty_storage one_tweet_demo) ''p9'' ''t9'' ''p1''
       \<lparr>qc_user_id = ''u1'', qc_content = replicate 281 (CHR ''a'')\<rparr>
     = (Inl ContentTooLong, run empty_storage one_tweet_demo)"
proof -
  let ?s = "run empty_storage one_tweet_demo"
  have u: "users ?s ''u1'' \<noteq> None" by (rule one_tweet_demo_state(4))
  have t: "map_of (tweets ?s) ''p1'' \<noteq> None" by (simp add: one_tweet_demo_state)
  have l: "length (replicate 280 (CHR ''a'')) \<le> 280" "280 < length (replicate 281 (CHR ''a''))"
    by simp_all
  note ok = body_length_boundary [of ?s "\<lparr>tc_user_id = ''u1'', tc_content = replicate 280 (CHR ''a'')\<rparr>"
        "''p9''" "''t9''" "''p1''" "\<lparr>qc_user_id = ''u1'', qc_content = replicate 280 (CHR ''a'')\<rparr>" "[]"]
  note no = body_length_boundary [of ?s "\<lparr>tc_user_id = ''u1'', tc_content = replicate 281 (CHR ''a'')\<rparr>"
        "''p9''" "''t9''" "''p1''" "\<lparr>qc_user_id = ''u1'', qc_content = replicate 281 (CHR ''a'')\<rparr>" "[]"]
  have a: "\<exists>v. fst (create_tweet ?s ''p9'' ''t9''
             \<lparr>tc_user_id = ''u1'', tc_content = replicate 280 (CHR ''a'')\<rparr>) = Inr v"
    using ok u l by auto
  have b: "\<exists>v. fst (create_quote_tweet ?s ''p9'' ''t9'' ''p1''
             \<lparr>qc_user_id = ''u1'', qc_content = replicate 280 (CHR ''a'')\<rparr>) = Inr v"
    using ok u t l by auto
  have c: "create_tweet ?s ''p9'' ''t9''
       \<lparr>tc_user_id = ''u1'', tc_content = replicate 281 (CHR ''a'')\<rparr> = (Inl ContentTooLong, ?s)"
    using no u l by auto
  have d: "create_quote_tweet ?s ''p9'' ''t9'' ''p1''
       \<lparr>qc_user_id = ''u1'', qc_content = replicate 281 (CHR ''a'')\<rparr> = (Inl ContentTooLong, ?s)"
    using no u t l by auto
  show ?thesis using a b c d by blast
qed

section \<open>The hashtag index\<close>

subsection \<open>Lists and dictionaries\<close>

lemma subseq_subset: "subseq xs ys \<Longrightarrow> set xs \<subseteq> set ys"
  by (induction rule: list_emb.induct) auto

lemma subseq_distinct: "subseq xs ys \<Longrightarrow> distinct ys \<Longrightarrow> distinct xs"
  by (induction rule: list_emb.induct) (auto dest: subseq_subset)

lemma subseq_sorted_wrt: "subseq xs ys \<Longrightarrow> sorted_wrt P ys \<Longrightarrow> sorted_wrt P xs"
  by (induction rule: list_emb.induct) (auto dest: subseq_subset)

lemma update_absent: "map_of al k = None \<Longrightarrow> AList.update k v al = al @ [(k, v)]"
  by (induction al) (auto split: if_splits)

lemma distinct_fromkeys_aux:
  "distinct acc \<Longrightarrow> distinct (foldl (\<lambda>d k. if k \<in> set d then d else d @ [k]) acc xs)"
  by (induction xs arbitrary: acc) auto

lemma distinct_fromkeys: "distinct (fromkeys xs)"
  by (simp add: fromkeys_def distinct_fromkeys_aux)

lemma distinct_extract_hashtags: "distinct (extract_hashtags content)"
  by (simp add: extract_hashtags_def distinct_fromkeys)

subsection \<open>What indexing and de-indexing do to the list of a tag\<close>

lemma index_hashtags_notin:
  "tag \<notin> set tags \<Longrightarrow> index_hashtags idx tid tags tag = idx tag"
  by (induction tags arbitrary: idx) auto

lemma index_hashtags_lookup:
  "distinct tags \<Longrightarrow>
   index_hashtags idx tid tags tag =
     (if tag \<in> set tags then Some (dict_get idx tag [] @ [tid]) else idx tag)"
  by (induction tags arbitrary: idx) (auto simp: index_hashtags_notin dict_get_def)

lemma deindex_hashtags_lookup:
  "(\<And>tag ids. idx tag = Some ids \<Longrightarrow> distinct ids) \<Longrightarrow>
   deindex_hashtags idx tid tags tag =
     (if tag \<in> set tags then map_option (removeAll tid) (idx tag) else idx tag)"
proof (induction tags arbitrary: idx)
  case Nil
  then show ?case by simp
next
  case (Cons t tags)
  let ?idx = "case idx t of None \<Rightarrow> idx
              | Some lst \<Rightarrow> if tid \<in> set lst then idx(t \<mapsto> remove1 tid lst) else idx"
  have step: "?idx x = (if x = t then map_option (removeAll tid) (idx x) else idx x)" for x
    using Cons.prems [of t]
    by (auto simp: distinct_remove1_removeAll split: option.splits)
  have d: "distinct ids" if "?idx x = Some ids" for x ids
    using that Cons.prems [of x] unfolding step
    by (auto simp: distinct_removeAll split: if_splits)
  have "deindex_hashtags idx tid (t # tags) tag = deindex_hashtags ?idx tid tags tag"
    by simp
  also have "\<dots> = (if tag \<in> set tags then map_option (removeAll tid) (?idx tag) else ?idx tag)"
    by (rule Cons.IH) (rule d)
  also have "\<dots> = (if tag \<in> set (t # tags) then map_option (removeAll tid) (idx tag) else idx tag)"
    unfolding step by (cases "idx tag") auto
  finally show ?case .
qed

subsection \<open>The index invariant\<close>

lemma index_invI:
  assumes "distinct (map fst (tweets s))"
    and "\<And>tag ids. hashtag_index s tag = Some ids \<Longrightarrow> subseq ids (map fst (tweets s))"
    and "\<And>tag ids tid. hashtag_index s tag = Some ids \<Longrightarrow> tid \<in> set ids \<Longrightarrow>
           \<exists>t. map_of (tweets s) tid = Some t \<and> tag \<in> set (t_hashtags t)"
  shows "index_inv s"
  unfolding index_inv_def using assms by blast

lemma index_invD:
  assumes "index_inv s"
  shows "distinct (map fst (tweets s))"
    and "hashtag_index s tag = Some ids \<Longrightarrow> subseq ids (map fst (tweets s))"
    and "hashtag_index s tag = Some ids \<Longrightarrow> tid \<in> set ids \<Longrightarrow>
           \<exists>t. map_of (tweets s) tid = Some t \<and> tag \<in> set (t_hashtags t)"
  using assms unfolding index_inv_def by blast+

lemma index_inv_distinct:
  "index_inv s \<Longrightarrow> hashtag_index s tag = Some ids \<Longrightarrow> distinct ids"
  using index_invD(1,2) subseq_distinct by blast

lemma index_inv_empty: "index_inv empty_storage"
  by (simp add: index_inv_def empty_storage_def)

lemma index_inv_frame:
  "index_inv s \<Longrightarrow> tweets s' = tweets s \<Longrightarrow> hashtag_index s' = hashtag_index s \<Longrightarrow>
   index_inv s'"
  unfolding index_inv_def by metis

lemma index_inv_insert:
  assumes inv: "index_inv s"
    and fresh: "map_of (tweets s) tid = None"
    and tags: "distinct (t_hashtags tw)"
    and tw: "tweets s' = AList.update tid tw (tweets s)"
    and ix: "hashtag_index s' = index_hashtags (hashtag_index s) tid (t_hashtags tw)"
  shows "index_inv s'"
proof (rule index_invI)
  have keys: "map fst (tweets s') = map fst (tweets s) @ [tid]"
    by (simp add: tw update_absent [OF fresh])
  have notin: "tid \<notin> set (map fst (tweets s))"
    using fresh by (simp add: map_of_eq_None_iff)
  show "distinct (map fst (tweets s'))"
    using index_invD(1) [OF inv] notin by (simp add: keys)
  have look: "hashtag_index s' tag =
      (if tag \<in> set (t_hashtags tw) then Some (dict_get (hashtag_index s) tag [] @ [tid])
       else hashtag_index s tag)" for tag
    by (simp add: ix index_hashtags_lookup [OF tags])
  have old: "subseq (dict_get (hashtag_index s) tag []) (map fst (tweets s))" for tag
    using index_invD(2) [OF inv, of tag] by (auto simp: dict_get_def split: option.splits)
  show "subseq ids (map fst (tweets s'))" if "hashtag_index s' tag = Some ids" for tag ids
  proof (cases "tag \<in> set (t_hashtags tw)")
    case True
    then have "ids = dict_get (hashtag_index s) tag [] @ [tid]"
      using that by (simp add: look)
    then show ?thesis
      unfolding keys using old [of tag] by (simp add: list_emb_append_mono)
  next
    case False
    then have "hashtag_index s tag = Some ids" using that by (simp add: look)
    then show ?thesis
      unfolding keys using index_invD(2) [OF inv] subseq_rev_drop_many by blast
  qed
  show "\<exists>t. map_of (tweets s') x = Some t \<and> tag \<in> set (t_hashtags t)"
    if h: "hashtag_index s' tag = Some ids" and x: "x \<in> set ids" for tag ids x
  proof (cases "x = tid")
    case True
    have "tag \<in> set (t_hashtags tw)"
    proof (rule ccontr)
      assume "tag \<notin> set (t_hashtags tw)"
      then have "hashtag_index s tag = Some ids" using h by (simp add: look)
      then have "\<exists>t. map_of (tweets s) x = Some t" using index_invD(3) [OF inv] x by blast
      then show False using True fresh by simp
    qed
    then show ?thesis using True by (simp add: tw update_conv')
  next
    case False
    have "\<exists>ids0. hashtag_index s tag = Some ids0 \<and> x \<in> set ids0"
    proof (cases "tag \<in> set (t_hashtags tw)")
      case True
      then have "ids = dict_get (hashtag_index s) tag [] @ [tid]" using h by (simp add: look)
      then show ?thesis using x False by (auto simp: dict_get_def split: option.splits)
    next
      case False
      then show ?thesis using h x by (simp add: look)
    qed
    then have "\<exists>t. map_of (tweets s) x = Some t \<and> tag \<in> set (t_hashtags t)"
      using index_invD(3) [OF inv] by blast
    then show ?thesis using False by (simp add: tw update_conv')
  qed
qed

lemma index_inv_remove:
  assumes inv: "index_inv s"
    and tw: "map_of (tweets s) tid = Some tw"
    and ts: "tweets s' = AList.delete tid (tweets s)"
    and ix: "hashtag_index s' = deindex_hashtags (hashtag_index s) tid (t_hashtags tw)"
  shows "index_inv s'" and "tid \<notin> set (dict_get (hashtag_index s') tag [])"
proof -
  have keys: "map fst (tweets s') = filter (\<lambda>k. k \<noteq> tid) (map fst (tweets s))"
    by (simp add: ts delete_keys removeAll_filter_not_eq) metis
  have look: "hashtag_index s' tag =
      (if tag \<in> set (t_hashtags tw) then map_option (removeAll tid) (hashtag_index s tag)
       else hashtag_index s tag)" for tag
    unfolding ix by (rule deindex_hashtags_lookup) (rule index_inv_distinct [OF inv])
  have out: "tid \<notin> set ids" if "tag \<notin> set (t_hashtags tw)" "hashtag_index s tag = Some ids"
    for tag ids
    using index_invD(3) [OF inv that(2), of tid] that(1) tw by auto
  have all: "\<exists>ids0. hashtag_index s tag = Some ids0 \<and> ids = filter (\<lambda>k. k \<noteq> tid) ids0"
    if "hashtag_index s' tag = Some ids" for tag ids
  proof (cases "tag \<in> set (t_hashtags tw)")
    case True
    then show ?thesis using that by (auto simp: look removeAll_filter_not_eq) metis
  next
    case False
    then have h: "hashtag_index s tag = Some ids" using that by (simp add: look)
    then have "filter (\<lambda>k. k \<noteq> tid) ids = ids" using out [OF False h] by (auto simp: filter_id_conv)
    then show ?thesis using h by simp
  qed
  show "tid \<notin> set (dict_get (hashtag_index s') tag [])"
  proof (cases "hashtag_index s' tag")
    case None
    then show ?thesis by (simp add: dict_get_def)
  next
    case (Some ids)
    then show ?thesis using all [OF Some] by (auto simp: dict_get_def)
  qed
  show "index_inv s'"
  proof (rule index_invI)
    show "distinct (map fst (tweets s'))"
      unfolding keys using index_invD(1) [OF inv] by simp
    show "subseq ids (map fst (tweets s'))" if "hashtag_index s' tag = Some ids" for tag ids
      using all [OF that] index_invD(2) [OF inv] unfolding keys by auto
    show "\<exists>t. map_of (tweets s') x = Some t \<and> tag \<in> set (t_hashtags t)"
      if h: "hashtag_index s' tag = Some ids" and x: "x \<in> set ids" for tag ids x
    proof -
      obtain ids0 where i: "hashtag_index s tag = Some ids0" "ids = filter (\<lambda>k. k \<noteq> tid) ids0"
        using all [OF h] by blast
      then have "x \<noteq> tid" "x \<in> set ids0" using x by auto
      then show ?thesis
        using index_invD(3) [OF inv i(1)] by (simp add: ts)
    qed
  qed
qed

subsection \<open>The handlers keep the index invariant\<close>

lemma index_inv_create_tweet:
  assumes "index_inv s" and "map_of (tweets s) tid = None"
  shows "index_inv (snd (create_tweet s tid now body))"
proof (cases "users s (tc_user_id body) = None \<or> 280 < length (tc_content body)")
  case True
  then show ?thesis using assms(1) by (auto simp: create_tweet_def)
next
  case False
  let ?tw = "\<lparr>t_id = tid, t_type = Tweet, t_user_id = tc_user_id body,
              t_content = Some (tc_content body), t_created_at = now,
              t_hashtags = extract_hashtags (tc_content body),
              t_mentions = extract_mentions (tc_content body),
              t_original_tweet_id = None\<rparr>"
  show ?thesis
  proof (rule index_inv_insert [OF assms, where tw = ?tw])
    show "distinct (t_hashtags ?tw)" by (simp add: distinct_extract_hashtags)
    show "tweets (snd (create_tweet s tid now body)) = AList.update tid ?tw (tweets s)"
      using False by (auto simp: create_tweet_def Let_def)
    show "hashtag_index (snd (create_tweet s tid now body)) =
          index_hashtags (hashtag_index s) tid (t_hashtags ?tw)"
      using False by (auto simp: create_tweet_def Let_def)
  qed
qed

lemma index_inv_create_quote_tweet:
  assumes "index_inv s" and "map_of (tweets s) tid = None"
  shows "index_inv (snd (create_quote_tweet s tid now tweet_id body))"
proof (cases "map_of (tweets s) tweet_id = None \<or> users s (qc_user_id body) = None \<or>
              280 < length (qc_content body)")
  case True
  then show ?thesis using assms(1) by (auto simp: create_quote_tweet_def)
next
  case False
  let ?tw = "\<lparr>t_id = tid, t_type = Quote, t_user_id = qc_user_id body,
              t_content = Some (qc_content body), t_created_at = now,
              t_hashtags = extract_hashtags (qc_content body),
              t_mentions = extract_mentions (qc_content body),
              t_original_tweet_id = Some tweet_id\<rparr>"
  show ?thesis
  proof (rule index_inv_insert [OF assms, where tw = ?tw])
    show "distinct (t_hashtags ?tw)" by (simp add: distinct_extract_hashtags)
    show "tweets (snd (create_quote_tweet s tid now tweet_id body)) =
          AList.update tid ?tw (tweets s)"
      using False by (auto simp: create_quote_tweet_def Let_def)
    show "hashtag_index (snd (create_quote_tweet s tid now tweet_id body)) =
          index_hashtags (hashtag_index s) tid (t_hashtags ?tw)"
      using False by (auto simp: create_quote_tweet_def Let_def)
  qed
qed

lemma index_inv_create_retweet:
  assumes "index_inv s" and "map_of (tweets s) tid = None"
  shows "index_inv (snd (create_retweet s tid now tweet_id body))"
proof (cases "map_of (tweets s) tweet_id = None \<or> users s (rc_user_id body) = None")
  case True
  then show ?thesis using assms(1) by (auto simp: create_retweet_def)
next
  case False
  let ?tw = "\<lparr>t_id = tid, t_type = Retweet, t_user_id = rc_user_id body,
              t_content = None, t_created_at = now, t_hashtags = [],
              t_mentions = [], t_original_tweet_id = Some tweet_id\<rparr>"
  show ?thesis
  proof (rule index_inv_insert [OF assms, where tw = ?tw])
    show "distinct (t_hashtags ?tw)" by simp
    show "tweets (snd (create_retweet s tid now tweet_id body)) = AList.update tid ?tw (tweets s)"
      using False by (auto simp: create_retweet_def Let_def)
    show "hashtag_index (snd (create_retweet s tid now tweet_id body)) =
          index_hashtags (hashtag_index s) tid (t_hashtags ?tw)"
      using False by (auto simp: create_retweet_def Let_def)
  qed
qed

lemma delete_tweet_effect:
  assumes "map_of (tweets s) tid = Some tw"
  shows "fst (delete_tweet s tid) = Inr ()"
    and "tweets (snd (delete_tweet s tid)) = AList.delete tid (tweets s)"
    and "hashtag_index (snd (delete_tweet s tid)) =
         deindex_hashtags (hashtag_index s) tid (t_hashtags tw)"
    and "likes (snd (delete_tweet s tid)) = (likes s)(tid := None)"
  using assms by (simp_all add: delete_tweet_def Let_def)

lemma delete_tweet_missing:
  "map_of (tweets s) tid = None \<Longrightarrow> delete_tweet s tid = (Inl (TweetNotFound tid), s)"
  by (simp add: delete_tweet_def)

lemma index_inv_delete_tweet:
  assumes "index_inv s"
  shows "index_inv (snd (delete_tweet s tid))"
proof (cases "map_of (tweets s) tid")
  case None
  then show ?thesis using assms by (simp add: delete_tweet_missing)
next
  case (Some tw)
  show ?thesis
    by (rule index_inv_remove(1) [OF assms Some delete_tweet_effect(2,3) [OF Some]])
qed

lemma create_user_index:
  "tweets (snd (create_user s uid now body)) = tweets s"
  "hashtag_index (snd (create_user s uid now body)) = hashtag_index s"
  by (simp_all add: create_user_def Let_def)

lemma update_user_index:
  "tweets (snd (update_user s user_id body)) = tweets s"
  "hashtag_index (snd (update_user s user_id body)) = hashtag_index s"
  by (simp_all add: update_user_def Let_def split: option.splits)

lemma follow_user_index:
  "tweets (snd (follow_user s u body)) = tweets s"
  "hashtag_index (snd (follow_user s u body)) = hashtag_index s"
  by (simp_all add: follow_user_def Let_def split: option.splits)

lemma unfollow_user_index:
  "tweets (snd (unfollow_user s u t)) = tweets s"
  "hashtag_index (snd (unfollow_user s u t)) = hashtag_index s"
  by (simp_all add: unfollow_user_def Let_def split: option.splits)

lemma like_tweet_index:
  "tweets (snd (like_tweet s tweet_id body)) = tweets s"
  "hashtag_index (snd (like_tweet s tweet_id body)) = hashtag_index s"
  by (simp_all add: like_tweet_def Let_def split: option.splits)

lemma unlike_tweet_index:
  "tweets (snd (unlike_tweet s tweet_id user_id)) = tweets s"
  "hashtag_index (snd (unlike_tweet s tweet_id user_id)) = hashtag_index s"
  by (simp_all add: unlike_tweet_def Let_def split: option.splits)

lemma index_inv_perform:
  assumes "index_inv s" and "fresh s r"
  shows "index_inv (snd (perform s r))"
proof (cases r)
  case (CreateUser uid now body)
  then show ?thesis
    using index_inv_frame [OF assms(1) create_user_index] by simp
next
  case (UpdateUser user_id body)
  then show ?thesis
    using index_inv_frame [OF assms(1) update_user_index] by simp
next
  case (CreateTweet tid now body)
  then show ?thesis using assms by (simp add: index_inv_create_tweet)
next
  case (DeleteTweet tweet_id)
  then show ?thesis using assms by (simp add: index_inv_delete_tweet)
next
  case (CreateRetweet tid now tweet_id body)
  then show ?thesis using assms by (simp add: index_inv_create_retweet)
next
  case (CreateQuoteTweet tid now tweet_id body)
  then show ?thesis using assms by (simp add: index_inv_create_quote_tweet)
next
  case (FollowUser user_id body)
  then show ?thesis
    using index_inv_frame [OF assms(1) follow_user_index] by simp
next
  case (UnfollowUser user_id target_user_id)
  then show ?thesis
    using index_inv_frame [OF assms(1) unfollow_user_index] by simp
next
  case (LikeTweet tweet_id body)
  then show ?thesis
    using index_inv_frame [OF assms(1) like_tweet_index] by simp
next
  case (UnlikeTweet tweet_id user_id)
  then show ?thesis
    using index_inv_frame [OF assms(1) unlike_tweet_index] by simp
qed

lemma reachable_index_inv: "reachable s \<Longrightarrow> index_inv s"
  by (induction rule: reachable.induct) (simp_all add: index_inv_empty index_inv_perform)

subsection \<open>The hashtag index in reachable states\<close>

lemma create_tweet_index:
  "fst (create_tweet s tid now body) = Inr v \<Longrightarrow>
   hashtag_index (snd (create_tweet s tid now body)) =
     index_hashtags (hashtag_index s) tid (extract_hashtags (tc_content body))"
  by (auto simp: create_tweet_def Let_def split: if_splits)

lemma create_quote_tweet_index:
  "fst (create_quote_tweet s tid now tweet_id body) = Inr v \<Longrightarrow>
   hashtag_index (snd (create_quote_tweet s tid now tweet_id body)) =
     index_hashtags (hashtag_index s) tid (extract_hashtags (qc_content body))"
  by (auto simp: create_quote_tweet_def Let_def split: if_splits)

lemma dict_get_index_hashtags:
  "distinct tags \<Longrightarrow>
   dict_get (index_hashtags idx tid tags) tag [] =
     dict_get idx tag [] @ (if tag \<in> set tags then [tid] else [])"
  by (simp add: index_hashtags_lookup dict_get_def)

text \<open>
  C10. In every reachable state the list of every tag in the hashtag index holds
  each tweet id at most once and is a subsequence of the keys of \<open>tweets\<close>, which
  are in insertion order. A successful \<open>create_tweet\<close> or \<open>create_quote_tweet\<close>
  appends the new id once to the list of each extracted tag and leaves the other
  lists alone; after a successful \<open>delete_tweet\<close> the id is in no list.
\<close>

theorem hashtag_index_invariant:
  assumes "reachable s"
  shows "(hashtag_index s tag = Some ids \<longrightarrow> distinct ids \<and> subseq ids (map fst (tweets s))) \<and>
    (fst (create_tweet s tid now body) = Inr v \<longrightarrow>
       dict_get (hashtag_index (snd (create_tweet s tid now body))) tag [] =
         dict_get (hashtag_index s) tag [] @
           (if tag \<in> set (extract_hashtags (tc_content body)) then [tid] else [])) \<and>
    (fst (create_quote_tweet s tid now tweet_id qbody) = Inr v \<longrightarrow>
       dict_get (hashtag_index (snd (create_quote_tweet s tid now tweet_id qbody))) tag [] =
         dict_get (hashtag_index s) tag [] @
           (if tag \<in> set (extract_hashtags (qc_content qbody)) then [tid] else [])) \<and>
    (fst (delete_tweet s tid) = Inr u \<longrightarrow>
       tid \<notin> set (dict_get (hashtag_index (snd (delete_tweet s tid))) tag []))"
proof -
  have inv: "index_inv s" by (rule reachable_index_inv [OF assms])
  have a: "hashtag_index s tag = Some ids \<longrightarrow> distinct ids \<and> subseq ids (map fst (tweets s))"
    using index_inv_distinct [OF inv] index_invD(2) [OF inv] by blast
  have b: "fst (create_tweet s tid now body) = Inr v \<longrightarrow>
       dict_get (hashtag_index (snd (create_tweet s tid now body))) tag [] =
         dict_get (hashtag_index s) tag [] @
           (if tag \<in> set (extract_hashtags (tc_content body)) then [tid] else [])"
    by (simp add: create_tweet_index dict_get_index_hashtags distinct_extract_hashtags)
  have c: "fst (create_quote_tweet s tid now tweet_id qbody) = Inr v \<longrightarrow>
       dict_get (hashtag_index (snd (create_quote_tweet s tid now tweet_id qbody))) tag [] =
         dict_get (hashtag_index s) tag [] @
           (if tag \<in> set (extract_hashtags (qc_content qbody)) then [tid] else [])"
    by (simp add: create_quote_tweet_index dict_get_index_hashtags distinct_extract_hashtags)
  have d: "fst (delete_tweet s tid) = Inr u \<longrightarrow>
       tid \<notin> set (dict_get (hashtag_index (snd (delete_tweet s tid))) tag [])"
  proof (cases "map_of (tweets s) tid")
    case None
    then show ?thesis by (simp add: delete_tweet_missing)
  next
    case (Some tw)
    show ?thesis
      using index_inv_remove(2) [OF inv Some delete_tweet_effect(2,3) [OF Some]] by blast
  qed
  show ?thesis using a b c d by blast
qed

lemma tags_demo_state:
  "map fst (tweets (run empty_storage tags_demo)) = [''p1'', ''p3'']"
  "hashtag_index (run empty_storage tags_demo) ''x'' = Some [''p1'', ''p3'']"
  "hashtag_index (run empty_storage tags_demo) ''y'' = Some [''p1'', ''p3'']"
  "likes (run empty_storage tags_demo) ''p3'' = Some {|''u1''|}"
  by (simp_all add: tags_demo_def eval_defs eval_tweet_defs like_tweet_def)

lemma tags_demo_reachable: "reachable (run empty_storage tags_demo)"
  by (rule reachable_run [OF reachable_empty])
     (simp add: tags_demo_def eval_defs eval_tweet_defs like_tweet_def)

text \<open>
  An instance: three tweets with tags (one tag written twice in a body), the second
  tweet deleted again.
\<close>

theorem hashtag_index_invariant_witness:
  "reachable (run empty_storage tags_demo) \<and>
   hashtag_index (run empty_storage tags_demo) ''x'' = Some [''p1'', ''p3''] \<and>
   map fst (tweets (run empty_storage tags_demo)) = [''p1'', ''p3''] \<and>
   distinct [''p1'', ''p3''] \<and>
   subseq [''p1'', ''p3''] (map fst (tweets (run empty_storage tags_demo)))"
  using hashtag_index_invariant [OF tags_demo_reachable, of "''x''" "[''p1'', ''p3'']"]
    tags_demo_reachable tags_demo_state(1,2)
  by simp

section \<open>Deleting a tweet twice\<close>

text \<open>
  C5. In a reachable state that holds a tweet \<open>p\<close>, \<open>delete_tweet\<close> succeeds,
  and afterwards \<open>p\<close> is no key of \<open>tweets\<close> and of \<open>likes\<close> and occurs in the list
  of no tag; deleting \<open>p\<close> again answers "not found" and leaves that state as it is.
\<close>

theorem delete_twice:
  assumes "reachable s" and "map_of (tweets s) p = Some t"
  shows "fst (delete_tweet s p) = Inr () \<and>
         map_of (tweets (snd (delete_tweet s p))) p = None \<and>
         likes (snd (delete_tweet s p)) p = None \<and>
         p \<notin> set (dict_get (hashtag_index (snd (delete_tweet s p))) tag []) \<and>
         delete_tweet (snd (delete_tweet s p)) p =
           (Inl (TweetNotFound p), snd (delete_tweet s p))"
proof -
  note e = delete_tweet_effect [OF assms(2)]
  have gone: "map_of (tweets (snd (delete_tweet s p))) p = None"
    by (simp add: e(2) delete_conv')
  have "p \<notin> set (dict_get (hashtag_index (snd (delete_tweet s p))) tag [])"
    by (rule index_inv_remove(2) [OF reachable_index_inv [OF assms(1)] assms(2) e(2,3)])
  then show ?thesis
    using e(1) gone delete_tweet_missing [OF gone] by (simp add: e(4))
qed

text \<open>An instance: the quote of the previous example, which is liked and tagged.\<close>

theorem delete_twice_witness:
  "reachable (run empty_storage tags_demo) \<and>
   map_of (tweets (run empty_storage tags_demo)) ''p3'' \<noteq> None \<and>
   likes (run empty_storage tags_demo) ''p3'' = Some {|''u1''|} \<and>
   hashtag_index (run empty_storage tags_demo) ''x'' = Some [''p1'', ''p3''] \<and>
   fst (delete_tweet (run empty_storage tags_demo) ''p3'') = Inr () \<and>
   likes (snd (delete_tweet (run empty_storage tags_demo) ''p3'')) ''p3'' = None \<and>
   ''p3'' \<notin> set (dict_get (hashtag_index (snd (delete_tweet (run empty_storage tags_demo) ''p3''))) ''x'' []) \<and>
   delete_tweet (snd (delete_tweet (run empty_storage tags_demo) ''p3'')) ''p3'' =
     (Inl (TweetNotFound ''p3''), snd (delete_tweet (run empty_storage tags_demo) ''p3''))"
proof -
  let ?s = "run empty_storage tags_demo"
  have "''p3'' \<in> set (map fst (tweets ?s))"
    unfolding tags_demo_state(1) by simp
  then have "map_of (tweets ?s) ''p3'' \<noteq> None"
    by (simp add: map_of_eq_None_iff)
  then obtain t where t: "map_of (tweets ?s) ''p3'' = Some t" by blast
  show ?thesis
    using delete_twice [OF tags_demo_reachable t, of "''x''"] t tags_demo_reachable
      tags_demo_state(2,4)
    by simp
qed

section \<open>A rejected request leaves the storage as it was\<close>

lemma fst_respond_Inl [simp]: "fst (respond f r) = Inl e \<longleftrightarrow> fst r = Inl e"
  by (cases "fst r") (simp_all add: respond_def)

lemma setdefault_unchanged: "d k \<noteq> None \<Longrightarrow> setdefault d k x = d"
  by (auto simp: setdefault_def)

lemma create_user_error:
  "fst (create_user s uid now body) = Inl e \<Longrightarrow> snd (create_user s uid now body) = s"
  by (auto simp: create_user_def Let_def split: if_splits)

lemma update_user_error:
  "fst (update_user s user_id body) = Inl e \<Longrightarrow> snd (update_user s user_id body) = s"
  by (auto simp: update_user_def Let_def split: option.splits)

lemma create_tweet_error:
  "fst (create_tweet s tid now body) = Inl e \<Longrightarrow> snd (create_tweet s tid now body) = s"
  by (auto simp: create_tweet_def Let_def split: if_splits)

lemma delete_tweet_error:
  "fst (delete_tweet s tweet_id) = Inl e \<Longrightarrow> snd (delete_tweet s tweet_id) = s"
  by (auto simp: delete_tweet_def Let_def split: option.splits)

lemma create_retweet_error:
  "fst (create_retweet s tid now tweet_id body) = Inl e \<Longrightarrow>
   snd (create_retweet s tid now tweet_id body) = s"
  by (auto simp: create_retweet_def Let_def split: if_splits)

lemma create_quote_tweet_error:
  "fst (create_quote_tweet s tid now tweet_id body) = Inl e \<Longrightarrow>
   snd (create_quote_tweet s tid now tweet_id body) = s"
  by (auto simp: create_quote_tweet_def Let_def split: if_splits)

lemma like_tweet_error:
  "fst (like_tweet s tweet_id body) = Inl e \<Longrightarrow> snd (like_tweet s tweet_id body) = s"
  by (auto simp: like_tweet_def Let_def dict_get_def setdefault_def
      split: option.splits if_splits)

lemma unlike_tweet_error:
  "fst (unlike_tweet s tweet_id user_id) = Inl e \<Longrightarrow> snd (unlike_tweet s tweet_id user_id) = s"
  by (auto simp: unlike_tweet_def Let_def split: option.splits if_splits)

lemma follow_user_error:
  assumes "graph_inv s" and "fst (follow_user s u body) = Inl e"
  shows "snd (follow_user s u body) = s"
proof (cases "users s u = None \<or> users s (fr_target_user_id body) = None \<or>
              u = fr_target_user_id body")
  case True
  then show ?thesis by (auto simp: follow_user_def Let_def split: option.splits)
next
  case False
  then have a: "setdefault (following s) u {||} = following s"
    and b: "setdefault (followers s) (fr_target_user_id body) {||} = followers s"
    using graph_invD(4,5) [OF assms(1)] by (simp_all add: setdefault_unchanged)
  have c: "following s u \<noteq> None" "followers s (fr_target_user_id body) \<noteq> None"
    using False graph_invD(4,5) [OF assms(1)] by simp_all
  show ?thesis
    using assms(2) False c
    by (auto simp: follow_user_def Let_def a b split: option.splits if_splits)
qed

lemma unfollow_user_error:
  assumes "graph_inv s" and "fst (unfollow_user s u t) = Inl e"
  shows "snd (unfollow_user s u t) = s"
proof (cases "users s u = None \<or> users s t = None")
  case True
  then show ?thesis by (auto simp: unfollow_user_def Let_def split: option.splits)
next
  case False
  then have c: "followers s t \<noteq> None"
    using graph_invD(4) [OF assms(1)] by simp
  show ?thesis
    using assms(2) False c
    by (auto simp: unfollow_user_def Let_def split: option.splits if_splits)
qed

text \<open>
  C4. In every reachable state, a request to a writing endpoint that is answered
  with an error leaves the whole storage (all seven stores) exactly as it was.
\<close>

theorem error_atomicity:
  assumes "reachable s" and "fst (perform s r) = Inl e"
  shows "snd (perform s r) = s"
proof (cases r)
  case (CreateUser uid now body)
  then show ?thesis using assms(2) by (simp add: create_user_error)
next
  case (UpdateUser user_id body)
  then show ?thesis using assms(2) by (simp add: update_user_error)
next
  case (CreateTweet tid now body)
  then show ?thesis using assms(2) by (simp add: create_tweet_error)
next
  case (DeleteTweet tweet_id)
  then show ?thesis using assms(2) by (simp add: delete_tweet_error)
next
  case (CreateRetweet tid now tweet_id body)
  then show ?thesis using assms(2) by (simp add: create_retweet_error)
next
  case (CreateQuoteTweet tid now tweet_id body)
  then show ?thesis using assms(2) by (simp add: create_quote_tweet_error)
next
  case (FollowUser user_id body)
  then show ?thesis
    using assms(2) follow_user_error [OF reachable_graph_inv [OF assms(1)]] by simp
next
  case (UnfollowUser user_id target_user_id)
  then show ?thesis
    using assms(2) unfollow_user_error [OF reachable_graph_inv [OF assms(1)]] by simp
next
  case (LikeTweet tweet_id body)
  then show ?thesis using assms(2) by (simp add: like_tweet_error)
next
  case (UnlikeTweet tweet_id user_id)
  then show ?thesis using assms(2) by (simp add: unlike_tweet_error)
qed

lemma follow_demo_reachable: "reachable (run empty_storage follow_demo)"
  by (rule reachable_run [OF reachable_empty]) (simp add: follow_demo_def eval_defs)

text \<open>An instance: after the requests of the follow example, the first follow is sent again.\<close>

theorem error_atomicity_witness:
  "reachable (run empty_storage follow_demo) \<and>
   fst (perform (run empty_storage follow_demo) (FollowUser ''u1'' \<lparr>fr_target_user_id = ''u2''\<rparr>))
     = Inl (AlreadyFollowing ''u2'') \<and>
   snd (perform (run empty_storage follow_demo) (FollowUser ''u1'' \<lparr>fr_target_user_id = ''u2''\<rparr>))
     = run empty_storage follow_demo"
proof -
  let ?s = "run empty_storage follow_demo"
  let ?r = "FollowUser ''u1'' \<lparr>fr_target_user_id = ''u2''\<rparr>"
  have e: "fst (perform ?s ?r) = Inl (AlreadyFollowing ''u2'')"
    by (simp add: follow_demo_def eval_defs)
  show ?thesis
    using error_atomicity [OF follow_demo_reachable e] follow_demo_reachable e by simp
qed

text \<open>
  Reachability matters for \<open>follow_user\<close> only: it calls \<open>setdefault\<close> before it
  checks for an existing edge. In a storage where a user has no \<open>followers\<close>
  entry, which no sequence of requests produces, the rejected follow adds the
  empty entry.
\<close>

lemma follow_user_setdefault_before_check:
  "fst (follow_user skewed_storage ''u1'' \<lparr>fr_target_user_id = ''u2''\<rparr>)
     = Inl (AlreadyFollowing ''u2'') \<and>
   followers skewed_storage ''u2'' = None \<and>
   followers (snd (follow_user skewed_storage ''u1'' \<lparr>fr_target_user_id = ''u2''\<rparr>)) ''u2''
     = Some {||}"
  by (simp add: skewed_storage_def empty_storage_def follow_user_def setdefault_def Let_def)

section \<open>Display names\<close>

text \<open>
  C3. The display name of a stored user is not always non-empty: \<open>UserCreate\<close>
  rejects an empty display name, \<open>UserUpdate\<close> has no validator, and
  \<open>update_user\<close> stores whatever it is given. After a valid registration, the
  update with \<open>display_name = ""\<close> succeeds and the stored display name is empty.
\<close>

theorem update_user_empty_display_name:
  "validate_UserCreate alice = Inr alice \<and>
   validate_UserCreate (alice\<lparr>uc_display_name := ''''\<rparr>)
     = Inl (ValueError ''display_name must not be empty'') \<and>
   validate_UserUpdate \<lparr>uu_display_name = Some '''', uu_bio = None\<rparr>
     = Inr \<lparr>uu_display_name = Some '''', uu_bio = None\<rparr> \<and>
   (\<exists>v. fst (update_user (run empty_storage [CreateUser ''u1'' ''t0'' alice]) ''u1''
              \<lparr>uu_display_name = Some '''', uu_bio = None\<rparr>) = Inr v \<and>
        uo_display_name v = '''') \<and>
   map_option u_display_name
     (users (snd (update_user (run empty_storage [CreateUser ''u1'' ''t0'' alice]) ''u1''
                    \<lparr>uu_display_name = Some '''', uu_bio = None\<rparr>)) ''u1'') = Some ''''"
  by (simp add: validate_UserCreate_def validate_UserUpdate_def username_nonempty_def
      display_name_nonempty_def strip_def isspace_def update_user_def build_user_out_def
      eval_defs)

section \<open>The order of the listings\<close>

subsection \<open>Stable sorting\<close>

lemma sorted_wrt_insort_key_lex:
  fixes f :: "'a \<Rightarrow> 'k::linorder"
  assumes "sorted_wrt (\<lambda>a b. f a < f b \<or> (f a = f b \<and> P a b)) ys"
    and "\<forall>y\<in>set ys. P x y"
  shows "sorted_wrt (\<lambda>a b. f a < f b \<or> (f a = f b \<and> P a b)) (insort_key f x ys)"
  using assms
proof (induction ys)
  case Nil
  then show ?case by simp
next
  case (Cons y ys)
  show ?case
  proof (cases "f x \<le> f y")
    case True
    have "f x < f z \<or> (f x = f z \<and> P x z)" if "z \<in> set (y # ys)" for z
    proof -
      have "f y \<le> f z" using that Cons.prems(1) by auto
      then have "f x \<le> f z" using True by simp
      then show ?thesis using that Cons.prems(2) by auto
    qed
    then show ?thesis using True Cons.prems(1) by simp
  next
    case False
    then have "sorted_wrt (\<lambda>a b. f a < f b \<or> (f a = f b \<and> P a b)) (insort_key f x ys)"
      using Cons by simp
    then show ?thesis using False Cons.prems(1) by (auto simp: set_insort_key)
  qed
qed

lemma sorted_wrt_sort_key_lex:
  fixes f :: "'a \<Rightarrow> 'k::linorder"
  shows "sorted_wrt P xs \<Longrightarrow>
         sorted_wrt (\<lambda>a b. f a < f b \<or> (f a = f b \<and> P a b)) (sort_key f xs)"
  by (induction xs) (simp_all add: sorted_wrt_insort_key_lex)

lemma sorted_wrt_sort_reverse:
  fixes f :: "'a \<Rightarrow> 'k::linorder"
  assumes "sorted_wrt P xs"
  shows "sorted_wrt (\<lambda>a b. f b < f a \<or> (f a = f b \<and> P a b)) (sort_reverse f xs)"
proof -
  have "sorted_wrt (\<lambda>a b. P b a) (rev xs)"
    using assms by (simp add: sorted_wrt_rev)
  then have "sorted_wrt (\<lambda>a b. f a < f b \<or> (f a = f b \<and> P b a)) (sort_key f (rev xs))"
    by (rule sorted_wrt_sort_key_lex)
  then have "sorted_wrt (\<lambda>a b. f b < f a \<or> (f b = f a \<and> P a b)) (sort_reverse f xs)"
    by (simp add: sort_reverse_def sorted_wrt_rev)
  then show ?thesis
    by (rule sorted_wrt_mono_rel [rotated]) auto
qed

lemma sorted_wrt_insertion_index:
  "distinct ks \<Longrightarrow> sorted_wrt (\<lambda>a b. insertion_index a ks < insertion_index b ks) ks"
proof (induction ks)
  case Nil
  then show ?case by simp
next
  case (Cons k ks)
  have "sorted_wrt (\<lambda>a b. insertion_index a ks < insertion_index b ks) ks"
    using Cons by simp
  then have "sorted_wrt (\<lambda>a b. insertion_index a (k # ks) < insertion_index b (k # ks)) ks"
    by (rule sorted_wrt_mono_rel [rotated]) (use Cons.prems in auto)
  then show ?case using Cons.prems by auto
qed

subsection \<open>Stored tweets carry their key\<close>

lemma key_inv_empty: "key_inv empty_storage"
  by (simp add: key_inv_def empty_storage_def)

lemma key_inv_frame: "key_inv s \<Longrightarrow> tweets s' = tweets s \<Longrightarrow> key_inv s'"
  by (simp add: key_inv_def)

lemma key_inv_insert:
  "key_inv s \<Longrightarrow> map_of (tweets s) tid = None \<Longrightarrow> t_id tw = tid \<Longrightarrow>
   tweets s' = AList.update tid tw (tweets s) \<Longrightarrow> key_inv s'"
  by (simp add: key_inv_def update_absent)

lemma key_inv_create_tweet:
  assumes "key_inv s" and "map_of (tweets s) tid = None"
  shows "key_inv (snd (create_tweet s tid now body))"
proof (cases "users s (tc_user_id body) = None \<or> 280 < length (tc_content body)")
  case True
  then show ?thesis using assms(1) by (auto simp: create_tweet_def)
next
  case False
  show ?thesis
    by (rule key_inv_insert [OF assms, where tw = "\<lparr>t_id = tid, t_type = Tweet,
          t_user_id = tc_user_id body, t_content = Some (tc_content body), t_created_at = now,
          t_hashtags = extract_hashtags (tc_content body),
          t_mentions = extract_mentions (tc_content body), t_original_tweet_id = None\<rparr>"])
       (use False in \<open>auto simp: create_tweet_def Let_def\<close>)
qed

lemma key_inv_create_quote_tweet:
  assumes "key_inv s" and "map_of (tweets s) tid = None"
  shows "key_inv (snd (create_quote_tweet s tid now tweet_id body))"
proof (cases "map_of (tweets s) tweet_id = None \<or> users s (qc_user_id body) = None \<or>
              280 < length (qc_content body)")
  case True
  then show ?thesis using assms(1) by (auto simp: create_quote_tweet_def)
next
  case False
  show ?thesis
    by (rule key_inv_insert [OF assms, where tw = "\<lparr>t_id = tid, t_type = Quote,
          t_user_id = qc_user_id body, t_content = Some (qc_content body), t_created_at = now,
          t_hashtags = extract_hashtags (qc_content body),
          t_mentions = extract_mentions (qc_content body),
          t_original_tweet_id = Some tweet_id\<rparr>"])
       (use False in \<open>auto simp: create_quote_tweet_def Let_def\<close>)
qed

lemma key_inv_create_retweet:
  assumes "key_inv s" and "map_of (tweets s) tid = None"
  shows "key_inv (snd (create_retweet s tid now tweet_id body))"
proof (cases "map_of (tweets s) tweet_id = None \<or> users s (rc_user_id body) = None")
  case True
  then show ?thesis using assms(1) by (auto simp: create_retweet_def)
next
  case False
  show ?thesis
    by (rule key_inv_insert [OF assms, where tw = "\<lparr>t_id = tid, t_type = Retweet,
          t_user_id = rc_user_id body, t_content = None, t_created_at = now, t_hashtags = [],
          t_mentions = [], t_original_tweet_id = Some tweet_id\<rparr>"])
       (use False in \<open>auto simp: create_retweet_def Let_def\<close>)
qed

lemma key_inv_delete_tweet: "key_inv s \<Longrightarrow> key_inv (snd (delete_tweet s tid))"
  by (auto simp: key_inv_def delete_tweet_def Let_def AList.delete_eq list_all_iff
      split: option.splits)

lemma key_inv_perform:
  assumes "key_inv s" and "fresh s r"
  shows "key_inv (snd (perform s r))"
proof (cases r)
  case (CreateUser uid now body)
  then show ?thesis using key_inv_frame [OF assms(1) create_user_index(1)] by simp
next
  case (UpdateUser user_id body)
  then show ?thesis using key_inv_frame [OF assms(1) update_user_index(1)] by simp
next
  case (CreateTweet tid now body)
  then show ?thesis using assms by (simp add: key_inv_create_tweet)
next
  case (DeleteTweet tweet_id)
  then show ?thesis using assms by (simp add: key_inv_delete_tweet)
next
  case (CreateRetweet tid now tweet_id body)
  then show ?thesis using assms by (simp add: key_inv_create_retweet)
next
  case (CreateQuoteTweet tid now tweet_id body)
  then show ?thesis using assms by (simp add: key_inv_create_quote_tweet)
next
  case (FollowUser user_id body)
  then show ?thesis using key_inv_frame [OF assms(1) follow_user_index(1)] by simp
next
  case (UnfollowUser user_id target_user_id)
  then show ?thesis using key_inv_frame [OF assms(1) unfollow_user_index(1)] by simp
next
  case (LikeTweet tweet_id body)
  then show ?thesis using key_inv_frame [OF assms(1) like_tweet_index(1)] by simp
next
  case (UnlikeTweet tweet_id user_id)
  then show ?thesis using key_inv_frame [OF assms(1) unlike_tweet_index(1)] by simp
qed

lemma reachable_key_inv: "reachable s \<Longrightarrow> key_inv s"
  by (induction rule: reachable.induct) (simp_all add: key_inv_empty key_inv_perform)

subsection \<open>The listings are in that order\<close>

lemma values_by_insertion:
  assumes "key_inv s" and "distinct (map fst (tweets s))"
  shows "sorted_wrt (by_insertion s) (map snd (tweets s))"
proof -
  let ?ix = "\<lambda>k. insertion_index k (map fst (tweets s))"
  have "sorted_wrt (\<lambda>a b. ?ix a < ?ix b) (map fst (tweets s))"
    by (rule sorted_wrt_insertion_index [OF assms(2)])
  then have "sorted_wrt (\<lambda>x y. ?ix (fst x) < ?ix (fst y)) (tweets s)"
    by (simp add: sorted_wrt_map)
  then have "sorted_wrt (\<lambda>x y. by_insertion s (snd x) (snd y)) (tweets s)"
    by (rule sorted_wrt_mono_rel [rotated])
       (use assms(1) in \<open>auto simp: key_inv_def by_insertion_def list_all_iff\<close>)
  then show ?thesis by (simp add: sorted_wrt_map)
qed

lemma indexed_by_insertion:
  assumes "key_inv s" and "distinct (map fst (tweets s))" and "subseq ids (map fst (tweets s))"
  shows "sorted_wrt (by_insertion s) (List.map_filter (map_of (tweets s)) ids)"
proof -
  let ?ix = "\<lambda>k. insertion_index k (map fst (tweets s))"
  let ?live = "filter (\<lambda>x. map_of (tweets s) x \<noteq> None) ids"
  have "sorted_wrt (\<lambda>a b. ?ix a < ?ix b) ids"
    by (rule subseq_sorted_wrt [OF assms(3) sorted_wrt_insertion_index [OF assms(2)]])
  then have live: "sorted_wrt (\<lambda>a b. ?ix a < ?ix b) ?live"
    by (rule sorted_wrt_filter)
  have key: "t_id (the (map_of (tweets s) x)) = x" if "x \<in> set ?live" for x
  proof -
    have "map_of (tweets s) x \<noteq> None" using that by simp
    then obtain t where t: "map_of (tweets s) x = Some t" by blast
    then have "(x, t) \<in> set (tweets s)" by (rule map_of_SomeD)
    then show ?thesis using assms(1) t by (auto simp: key_inv_def list_all_iff)
  qed
  have "sorted_wrt (\<lambda>a b. by_insertion s (the (map_of (tweets s) a))
                                   (the (map_of (tweets s) b))) ?live"
    by (rule sorted_wrt_mono_rel [OF _ live]) (simp add: by_insertion_def key)
  then show ?thesis
    by (simp add: List.map_filter_def sorted_wrt_map)
qed

lemma listing_in_order:
  assumes "sorted_wrt (by_insertion s) src"
  shows "sorted_wrt (listing_order s)
           (map (\<lambda>t. build_tweet_out s t 0) (sort_reverse t_created_at src))"
proof -
  have "sorted_wrt (\<lambda>a b. t_created_at b < t_created_at a \<or>
                           (t_created_at a = t_created_at b \<and> by_insertion s a b))
          (sort_reverse t_created_at src)"
    by (rule sorted_wrt_sort_reverse [OF assms])
  then show ?thesis
    by (simp add: sorted_wrt_map listing_order_def by_insertion_def)
qed

lemma listing_order_strict:
  "\<not> listing_order s v v"
  "listing_order s a b \<Longrightarrow> listing_order s b c \<Longrightarrow> listing_order s a c"
  by (auto simp: listing_order_def)

text \<open>
  What the handlers do in every reachable state: the four listings (the tweets of
  a user, the timeline, the mentions, the tweets of a hashtag) are sorted by
  timestamp descending, and tweets with the same timestamp stand in the order in
  which the store iterates them, the one created earlier first. No handler
  passes a second key to the sort.
\<close>

lemma listings_keep_iteration_order:
  assumes "reachable s"
  shows "(get_user_tweets s u = Inr vs \<longrightarrow> sorted_wrt (listing_order s) vs) \<and>
         (get_timeline s u = Inr vs \<longrightarrow> sorted_wrt (listing_order s) vs) \<and>
         (get_mentions s u = Inr vs \<longrightarrow> sorted_wrt (listing_order s) vs) \<and>
         sorted_wrt (listing_order s) (get_tweets_by_hashtag s tag)"
proof -
  have k: "key_inv s" by (rule reachable_key_inv [OF assms])
  have i: "index_inv s" by (rule reachable_index_inv [OF assms])
  have d: "distinct (map fst (tweets s))" by (rule index_invD(1) [OF i])
  have vals: "sorted_wrt (by_insertion s) (filter Q (map snd (tweets s)))" for Q
    by (rule sorted_wrt_filter [OF values_by_insertion [OF k d]])
  have a: "get_user_tweets s u = Inr vs \<longrightarrow> sorted_wrt (listing_order s) vs"
    using listing_in_order [OF vals]
    by (auto simp: get_user_tweets_def Let_def split: option.splits)
  have b: "get_timeline s u = Inr vs \<longrightarrow> sorted_wrt (listing_order s) vs"
    using listing_in_order [OF vals]
    by (auto simp: get_timeline_def Let_def split: if_splits)
  have c: "get_mentions s u = Inr vs \<longrightarrow> sorted_wrt (listing_order s) vs"
    using listing_in_order [OF vals]
    by (auto simp: get_mentions_def Let_def split: option.splits)
  have "subseq (dict_get (hashtag_index s) (lower tag) []) (map fst (tweets s))"
    using index_invD(2) [OF i, of "lower tag"]
    by (auto simp: dict_get_def split: option.splits)
  then have e: "sorted_wrt (listing_order s) (get_tweets_by_hashtag s tag)"
    unfolding get_tweets_by_hashtag_def Let_def
    by (intro listing_in_order indexed_by_insertion [OF k d])
  show ?thesis
    using a b c e by blast
qed

subsection \<open>Tweets with the same timestamp\<close>

lemma tie_demo_reachable: "reachable (run empty_storage tie_demo)"
  by (rule reachable_run [OF reachable_empty])
     (simp add: tie_demo_def eval_defs eval_tweet_defs)


end
